theory Spec2Isabelle
  imports Main
begin

section \<open>The process state seen by one \<open>CoreSingleton<T, AllocStrat, DisposeStrat, SyncStrat>\<close>\<close>

text \<open>
  The coordinator is a class template with static members only, so one instantiation
  is modelled by the three strategy tags together with \<open>sizeof(T)\<close>, and its state
  by the static variables it and its strategies declare. Pointers are addresses,
  \<open>nullptr\<close> is \<open>None\<close>. A thread is identified by a number. Field names are the
  members' names without their trailing underscore.
\<close>

type_synonym addr = nat
type_synonym tid = nat

datatype alloc_strat =
  NewAllocationStrategy | RawMemoryAllocationStrategy | SmartPointerAllocationStrategy

datatype dispose_strat =
  StandardDisposalStrategy | ImmortalStrategy | ResurrectionStrategy

datatype sync_strat =
  NoSynchronizationStrategy | MutexSynchronizationStrategy
  | AtomicSynchronizationStrategy | ThreadLocalStrategy

text \<open>
  The exceptions the headers throw are \<open>std::bad_alloc\<close> and \<open>std::runtime_error(msg)\<close>.
  \<open>null_dereference\<close> is no exception: it marks the undefined behaviour of
  \<open>*instance_ptr_\<close> on a null pointer, so that the model has a value there.
\<close>

datatype error = bad_alloc | runtime_error string | null_dereference

text \<open>The only function ever handed to \<open>std::atexit\<close> is \<open>&DestroyInstance\<close>.\<close>

datatype cleanup_func = DestroyInstance_ptr

text \<open>
  What the coordinator does to the world outside is recorded in a log, oldest event
  first: a storage request for \<open>n\<close> bytes and its answer, the construction and the
  destruction of a payload object, the release of a block, and the construction and
  destruction of a \<open>SyncGuard\<close>.
\<close>

datatype event =
  Request nat "addr option"
  | Construct addr
  | Destruct addr
  | Free addr
  | GuardAcquire
  | GuardRelease

record world =
  instance_ptr :: "addr option"         \<comment> \<open>the static \<open>instance_ptr_\<close> of \<open>CoreSingleton\<close>\<close>
  was_destroyed :: bool                 \<comment> \<open>the static \<open>was_destroyed_\<close> of \<open>CoreSingleton\<close>\<close>
  mutex :: "tid option"                 \<comment> \<open>\<open>mutex_\<close> of the mutex guard: the thread that holds it\<close>
  lock_flag :: bool                     \<comment> \<open>\<open>lock_flag_\<close> of the atomic guard\<close>
  ptr_instance :: "addr option"          \<comment> \<open>the static \<open>shared_ptr\<close> of \<open>GetSharedPointer\<close>\<close>
  local_instance :: "tid \<Rightarrow> addr option"  \<comment> \<open>the \<open>thread_local\<close> of \<open>GetThreadLocalInstance\<close>\<close>
  atexit :: "cleanup_func list"         \<comment> \<open>the registry of \<open>std::atexit\<close>, latest first\<close>
  provider :: "addr option list"         \<comment> \<open>the answers of the storage provider to the coming requests\<close>
  blocks :: "addr set"                   \<comment> \<open>raw blocks handed out and not yet released\<close>
  objects :: "addr set"                  \<comment> \<open>addresses that hold a constructed payload\<close>
  events :: "event list"

definition initial :: "addr option list \<Rightarrow> world" where
  "initial answers =
     \<lparr>instance_ptr = None, was_destroyed = False, mutex = None, lock_flag = False,
      ptr_instance = None, local_instance = (\<lambda>t. None), atexit = [], provider = answers,
      blocks = {}, objects = {}, events = []\<rparr>"

subsection \<open>The storage provider and the payload's constructor and destructor\<close>

definition emit :: "event \<Rightarrow> world \<Rightarrow> world" where
  "emit e w = w\<lparr>events := events w @ [e]\<rparr>"

text \<open>
  \<open>std::malloc\<close>, \<open>operator new\<close> and \<open>std::make_shared\<close> all ask the storage provider
  for a block. Its answer is taken from \<open>provider\<close>: an address, or \<open>None\<close> when storage
  is exhausted; a provider that has no answer left is exhausted.
\<close>

definition request_storage :: "nat \<Rightarrow> world \<Rightarrow> addr option \<times> world" where
  "request_storage n w =
     (case provider w of
        [] \<Rightarrow> (None, emit (Request n None) w)
      | None # rs \<Rightarrow> (None, emit (Request n None) (w\<lparr>provider := rs\<rparr>))
      | Some a # rs \<Rightarrow>
          (Some a, emit (Request n (Some a)) (w\<lparr>provider := rs, blocks := insert a (blocks w)\<rparr>)))"

definition release_storage :: "addr \<Rightarrow> world \<Rightarrow> world" where
  "release_storage a w = emit (Free a) (w\<lparr>blocks := blocks w - {a}\<rparr>)"

definition construct :: "addr \<Rightarrow> world \<Rightarrow> world" where
  "construct a w = emit (Construct a) (w\<lparr>objects := insert a (objects w)\<rparr>)"

definition destruct :: "addr \<Rightarrow> world \<Rightarrow> world" where
  "destruct a w = emit (Destruct a) (w\<lparr>objects := objects w - {a}\<rparr>)"

section \<open>Allocation strategies (\<open>allocation_strategy.hpp\<close>)\<close>

text \<open>
  \<open>Allocate\<close> returns the new pointer or throws; the world is returned in both cases,
  since a failed request is an effect too. \<open>new T()\<close> throws by itself when
  \<open>operator new\<close> fails, \<open>RawMemoryAllocationStrategy\<close> tests the result of
  \<open>std::malloc\<close> and throws, \<open>std::make_shared\<close> throws before the assignment to the
  static handle; the assignment releases the object the handle owned before. The
  block of \<open>std::make_shared\<close> also holds the reference counts; its request is
  recorded with \<open>sizeof(T)\<close> all the same. No other owner of the shared object
  exists: \<open>GetSharedPointer\<close> is private and only the raw pointer is handed out. The
  payload's constructor and destructor are taken not to throw.
\<close>

definition shared_ptr_release :: "addr option \<Rightarrow> world \<Rightarrow> world" where
  "shared_ptr_release h w =
     (case h of None \<Rightarrow> w | Some b \<Rightarrow> release_storage b (destruct b w))"

fun Allocate :: "alloc_strat \<Rightarrow> nat \<Rightarrow> world \<Rightarrow> (error + addr) \<times> world" where
  "Allocate NewAllocationStrategy sizeof_T w =
     (case request_storage sizeof_T w of
        (None, w1) \<Rightarrow> (Inl bad_alloc, w1)
      | (Some a, w1) \<Rightarrow> (Inr a, construct a w1))"
| "Allocate RawMemoryAllocationStrategy sizeof_T w =
     (case request_storage sizeof_T w of
        (raw_memory, w1) \<Rightarrow>
          (case raw_memory of
             None \<Rightarrow> (Inl bad_alloc, w1)
           | Some a \<Rightarrow> (Inr a, construct a w1)))"
| "Allocate SmartPointerAllocationStrategy sizeof_T w =
     (case request_storage sizeof_T w of
        (None, w1) \<Rightarrow> (Inl bad_alloc, w1)
      | (Some a, w1) \<Rightarrow>
          (let w2 = construct a w1;
               w3 = shared_ptr_release (ptr_instance w2) w2
           in (Inr a, w3\<lparr>ptr_instance := Some a\<rparr>)))"

fun Deallocate :: "alloc_strat \<Rightarrow> addr option \<Rightarrow> world \<Rightarrow> world" where
  "Deallocate NewAllocationStrategy instance w =
     (case instance of None \<Rightarrow> w | Some a \<Rightarrow> release_storage a (destruct a w))"
| "Deallocate RawMemoryAllocationStrategy instance w =
     (case instance of Some a \<Rightarrow> release_storage a (destruct a w) | None \<Rightarrow> w)"
| "Deallocate SmartPointerAllocationStrategy instance w =
     (shared_ptr_release (ptr_instance w) w)\<lparr>ptr_instance := None\<rparr>"

text \<open>
  \<open>ThreadLocalStrategy::GetThreadLocalInstance\<close>: the \<open>thread_local\<close> pointer is
  initialised by \<open>new T()\<close> the first time the calling thread passes the declaration;
  an initialiser that throws leaves it uninitialised.
\<close>

definition GetThreadLocalInstance :: "nat \<Rightarrow> tid \<Rightarrow> world \<Rightarrow> (error + addr) \<times> world" where
  "GetThreadLocalInstance sizeof_T t w =
     (case local_instance w t of
        Some a \<Rightarrow> (Inr a, w)
      | None \<Rightarrow>
          (case request_storage sizeof_T w of
             (None, w1) \<Rightarrow> (Inl bad_alloc, w1)
           | (Some a, w1) \<Rightarrow>
               (Inr a, (construct a w1)\<lparr>local_instance := (local_instance w1)(t := Some a)\<rparr>)))"

section \<open>Disposal strategies (\<open>disposal_strategy.hpp\<close>)\<close>

text \<open>
  \<open>std::atexit\<close> runs the registered functions in the reverse order of registration.
  Its result is ignored by both strategies that call it; the registration is taken
  to succeed.
\<close>

fun RegisterForCleanup :: "dispose_strat \<Rightarrow> cleanup_func \<Rightarrow> world \<Rightarrow> world" where
  "RegisterForCleanup StandardDisposalStrategy cleanup w = w\<lparr>atexit := cleanup # atexit w\<rparr>"
| "RegisterForCleanup ImmortalStrategy cleanup w = w"
| "RegisterForCleanup ResurrectionStrategy cleanup w = w\<lparr>atexit := cleanup # atexit w\<rparr>"

definition dead_message :: string where
  "dead_message = ''Attempting to access a destroyed singleton instance''"

fun HandleDeadInstance :: "dispose_strat \<Rightarrow> error + unit" where
  "HandleDeadInstance StandardDisposalStrategy = Inl (runtime_error dead_message)"
| "HandleDeadInstance ImmortalStrategy = Inr ()"
| "HandleDeadInstance ResurrectionStrategy = Inr ()"

section \<open>Synchronization strategies (\<open>sync_strategy.hpp\<close>)\<close>

text \<open>
  The constructor of a \<open>SyncGuard\<close> in a sequential execution: \<open>None\<close> when it never
  returns. \<open>std::mutex::lock\<close> on a mutex that is held waits for an unlock that no
  other thread is there to perform (held by the caller itself, the behaviour is
  undefined; the model lets that call never return either). The spin loop of the atomic guard calls
  \<open>test_and_set\<close>, which sets the flag and returns its former value, until that
  value is false.
\<close>

partial_function (option) spin :: "world \<Rightarrow> world option" where
  "spin w =
     (if lock_flag w then spin (w\<lparr>lock_flag := True\<rparr>)
      else Some (w\<lparr>lock_flag := True\<rparr>))"

declare spin.simps [code]

fun SyncGuard :: "sync_strat \<Rightarrow> tid \<Rightarrow> world \<Rightarrow> world option" where
  "SyncGuard NoSynchronizationStrategy t w = Some (emit GuardAcquire w)"
| "SyncGuard MutexSynchronizationStrategy t w =
     (case mutex w of
        None \<Rightarrow> Some (emit GuardAcquire (w\<lparr>mutex := Some t\<rparr>))
      | Some owner \<Rightarrow> None)"
| "SyncGuard AtomicSynchronizationStrategy t w = map_option (emit GuardAcquire) (spin w)"
| "SyncGuard ThreadLocalStrategy t w = Some (emit GuardAcquire w)"

text \<open>The destructor of the guard, run when its scope is left, also by an exception.\<close>

fun SyncGuard_dtor :: "sync_strat \<Rightarrow> world \<Rightarrow> world" where
  "SyncGuard_dtor NoSynchronizationStrategy w = emit GuardRelease w"
| "SyncGuard_dtor MutexSynchronizationStrategy w = emit GuardRelease (w\<lparr>mutex := None\<rparr>)"
| "SyncGuard_dtor AtomicSynchronizationStrategy w = emit GuardRelease (w\<lparr>lock_flag := False\<rparr>)"
| "SyncGuard_dtor ThreadLocalStrategy w = emit GuardRelease w"

fun guard_free :: "sync_strat \<Rightarrow> world \<Rightarrow> bool" where
  "guard_free NoSynchronizationStrategy w = True"
| "guard_free MutexSynchronizationStrategy w = (mutex w = None)"
| "guard_free AtomicSynchronizationStrategy w = (\<not> lock_flag w)"
| "guard_free ThreadLocalStrategy w = True"

section \<open>The coordinator (\<open>core_singleton.hpp\<close>)\<close>

text \<open>
  \<open>create\<close> is the block of \<open>GetInstance\<close> under the guard (the second test of
  \<open>instance_ptr_\<close> and what it protects). An exception leaves the block at once, so
  \<open>HandleDeadInstance\<close> throwing skips the assignment to \<open>was_destroyed_\<close>, and
  \<open>Allocate\<close> throwing skips the assignment to \<open>instance_ptr_\<close> and the
  registration.
\<close>

definition create :: "nat \<Rightarrow> alloc_strat \<Rightarrow> dispose_strat \<Rightarrow> world \<Rightarrow> (error + unit) \<times> world" where
  "create sizeof_T A D w =
     (if instance_ptr w = None then
        (case (if was_destroyed w then
                 (case HandleDeadInstance D of
                    Inl e \<Rightarrow> (Inl e, w)
                  | Inr u \<Rightarrow> (Inr (), w\<lparr>was_destroyed := False\<rparr>))
               else (Inr (), w)) of
           (Inl e, w1) \<Rightarrow> (Inl e, w1)
         | (Inr u, w1) \<Rightarrow>
             (case Allocate A sizeof_T w1 of
                (Inl e, w2) \<Rightarrow> (Inl e, w2)
              | (Inr a, w2) \<Rightarrow>
                  (Inr (), RegisterForCleanup D DestroyInstance_ptr (w2\<lparr>instance_ptr := Some a\<rparr>))))
      else (Inr (), w))"

text \<open>
  \<open>GetInstance\<close>, called by thread \<open>t\<close>: the result is \<open>None\<close> when the call never
  returns, and otherwise the exception thrown or the address of the object the
  returned reference denotes, with the world the call leaves.
\<close>

definition GetInstance ::
  "nat \<Rightarrow> alloc_strat \<Rightarrow> dispose_strat \<Rightarrow> sync_strat \<Rightarrow> tid \<Rightarrow> world
    \<Rightarrow> ((error + addr) \<times> world) option" where
  "GetInstance sizeof_T A D S t w =
     (case (if instance_ptr w = None then
              (case SyncGuard S t w of
                 None \<Rightarrow> None
               | Some w1 \<Rightarrow>
                   (case create sizeof_T A D w1 of (r, w2) \<Rightarrow> Some (r, SyncGuard_dtor S w2)))
            else Some (Inr (), w)) of
        None \<Rightarrow> None
      | Some (Inl e, w3) \<Rightarrow> Some (Inl e, w3)
      | Some (Inr u, w3) \<Rightarrow>
          (case instance_ptr w3 of
             None \<Rightarrow> Some (Inl null_dereference, w3)
           | Some a \<Rightarrow> Some (Inr a, w3)))"

definition DestroyInstance :: "alloc_strat \<Rightarrow> sync_strat \<Rightarrow> tid \<Rightarrow> world \<Rightarrow> world option" where
  "DestroyInstance A S t w =
     (case SyncGuard S t w of
        None \<Rightarrow> None
      | Some w1 \<Rightarrow>
          Some (SyncGuard_dtor S
                 ((Deallocate A (instance_ptr w1) w1)\<lparr>instance_ptr := None, was_destroyed := True\<rparr>)))"

section \<open>Executions\<close>

text \<open>
  A sequential execution is a list of actions: a caller on thread \<open>t\<close> calls
  \<open>GetInstance\<close> (and catches what it throws), or the runtime, on thread \<open>t\<close>, takes
  the function registered last out of the \<open>std::atexit\<close> registry and calls it.
  \<open>run\<close> collects the results of the calls of \<open>GetInstance\<close>.
\<close>

datatype action = Access tid | AtExit tid

fun run ::
  "nat \<Rightarrow> alloc_strat \<Rightarrow> dispose_strat \<Rightarrow> sync_strat \<Rightarrow> action list \<Rightarrow> world
    \<Rightarrow> ((error + addr) list \<times> world) option" where
  "run sizeof_T A D S [] w = Some ([], w)"
| "run sizeof_T A D S (Access t # acts) w =
     (case GetInstance sizeof_T A D S t w of
        None \<Rightarrow> None
      | Some (r, w1) \<Rightarrow>
          (case run sizeof_T A D S acts w1 of
             None \<Rightarrow> None
           | Some (rs, w2) \<Rightarrow> Some (r # rs, w2)))"
| "run sizeof_T A D S (AtExit t # acts) w =
     (case atexit w of
        [] \<Rightarrow> run sizeof_T A D S acts w
      | DestroyInstance_ptr # fs \<Rightarrow>
          (case DestroyInstance A S t (w\<lparr>atexit := fs\<rparr>) of
             None \<Rightarrow> None
           | Some w1 \<Rightarrow> run sizeof_T A D S acts w1))"

section \<open>Observations on a world\<close>

text \<open>
  The number of payload constructions, payload destructions and storage requests a
  world has seen, read from its log, and the answer the storage provider will give
  to the next request.
\<close>

fun is_Construct :: "event \<Rightarrow> bool" where
  "is_Construct (Construct a) = True"
| "is_Construct e = False"

fun is_Destruct :: "event \<Rightarrow> bool" where
  "is_Destruct (Destruct a) = True"
| "is_Destruct e = False"

fun is_Request :: "event \<Rightarrow> bool" where
  "is_Request (Request n r) = True"
| "is_Request e = False"

definition constructions :: "world \<Rightarrow> nat" where
  "constructions w = length (filter is_Construct (events w))"

definition destructions :: "world \<Rightarrow> nat" where
  "destructions w = length (filter is_Destruct (events w))"

definition requests :: "world \<Rightarrow> nat" where
  "requests w = length (filter is_Request (events w))"

definition next_answer :: "world \<Rightarrow> addr option" where
  "next_answer w = (case provider w of [] \<Rightarrow> None | r # rs \<Rightarrow> r)"

text \<open>
  A world in which the coordinator holds a live instance at \<open>a\<close> and has
  registered its destruction, as a first call of \<open>GetInstance\<close> leaves it.
\<close>

definition holding :: "addr \<Rightarrow> addr option list \<Rightarrow> world" where
  "holding a answers =
     (initial answers)\<lparr>instance_ptr := Some a, atexit := [DestroyInstance_ptr],
        blocks := {a}, objects := {a}\<rparr>"

fun is_Access :: "action \<Rightarrow> bool" where
  "is_Access (Access t) = True"
| "is_Access (AtExit t) = False"

section \<open>Threads calling \<open>GetInstance\<close> at the same time\<close>

text \<open>
  For concurrent callers \<open>GetInstance\<close> is cut at its statements. A thread is at one
  of the following places of the function; an interleaving of the threads' steps
  acts on the one shared world (memory is taken to be sequentially consistent).
\<close>

datatype pc =
  First_check           \<comment> \<open>line 41, \<open>if (!instance_ptr_)\<close>\<close>
  | Acquire             \<comment> \<open>line 43, the guard's constructor\<close>
  | Second_check        \<comment> \<open>line 46, \<open>if (!instance_ptr_)\<close> under the guard\<close>
  | Test_destroyed      \<comment> \<open>line 48, \<open>if (was_destroyed_)\<close>\<close>
  | Handle_dead         \<comment> \<open>line 49, \<open>HandleDeadInstance()\<close>\<close>
  | Clear_destroyed     \<comment> \<open>line 50, \<open>was_destroyed_ = false\<close>\<close>
  | Call_Allocate       \<comment> \<open>line 54, the call \<open>Allocate()\<close>\<close>
  | Store addr          \<comment> \<open>line 54, the assignment of its result to \<open>instance_ptr_\<close>\<close>
  | Register            \<comment> \<open>line 57, \<open>RegisterForCleanup(&DestroyInstance)\<close>\<close>
  | Release             \<comment> \<open>line 59, the guard's scope ends\<close>
  | Unwind error        \<comment> \<open>an exception leaves the guard's scope\<close>
  | Dereference         \<comment> \<open>line 60, \<open>return *instance_ptr_\<close>\<close>
  | Returned "error + addr"

text \<open>
  One step of thread \<open>t\<close>; \<open>None\<close> when the thread cannot move on in this world: it
  waits for the guard, or its call is over. The guard's constructor completes exactly
  when a sequential call of it would. The call of \<open>Allocate\<close> is one step and the
  assignment of its result to \<open>instance_ptr_\<close> another.
\<close>

fun thread_step ::
  "nat \<Rightarrow> alloc_strat \<Rightarrow> dispose_strat \<Rightarrow> sync_strat \<Rightarrow> tid \<Rightarrow> pc \<Rightarrow> world
    \<Rightarrow> (pc \<times> world) option" where
  "thread_step sizeof_T A D S t First_check w =
     Some (if instance_ptr w = None then Acquire else Dereference, w)"
| "thread_step sizeof_T A D S t Acquire w =
     (case SyncGuard S t w of None \<Rightarrow> None | Some w1 \<Rightarrow> Some (Second_check, w1))"
| "thread_step sizeof_T A D S t Second_check w =
     Some (if instance_ptr w = None then Test_destroyed else Release, w)"
| "thread_step sizeof_T A D S t Test_destroyed w =
     Some (if was_destroyed w then Handle_dead else Call_Allocate, w)"
| "thread_step sizeof_T A D S t Handle_dead w =
     (case HandleDeadInstance D of
        Inl e \<Rightarrow> Some (Unwind e, w)
      | Inr u \<Rightarrow> Some (Clear_destroyed, w))"
| "thread_step sizeof_T A D S t Clear_destroyed w =
     Some (Call_Allocate, w\<lparr>was_destroyed := False\<rparr>)"
| "thread_step sizeof_T A D S t Call_Allocate w =
     (case Allocate A sizeof_T w of
        (Inl e, w1) \<Rightarrow> Some (Unwind e, w1)
      | (Inr a, w1) \<Rightarrow> Some (Store a, w1))"
| "thread_step sizeof_T A D S t (Store a) w =
     Some (Register, w\<lparr>instance_ptr := Some a\<rparr>)"
| "thread_step sizeof_T A D S t Register w =
     Some (Release, RegisterForCleanup D DestroyInstance_ptr w)"
| "thread_step sizeof_T A D S t Release w = Some (Dereference, SyncGuard_dtor S w)"
| "thread_step sizeof_T A D S t (Unwind e) w = Some (Returned (Inl e), SyncGuard_dtor S w)"
| "thread_step sizeof_T A D S t Dereference w =
     Some (Returned (case instance_ptr w of None \<Rightarrow> Inl null_dereference | Some a \<Rightarrow> Inr a), w)"
| "thread_step sizeof_T A D S t (Returned r) w = None"

text \<open>
  A configuration is the shared world and the place of every thread. A schedule
  names the thread that is given the processor next; a thread that cannot move on
  leaves the configuration as it is (the spin loop yields, the mutex keeps waiting).
\<close>

type_synonym config = "world \<times> (tid \<Rightarrow> pc)"

definition sched_step ::
  "nat \<Rightarrow> alloc_strat \<Rightarrow> dispose_strat \<Rightarrow> sync_strat \<Rightarrow> config \<Rightarrow> tid \<Rightarrow> config" where
  "sched_step sizeof_T A D S c t =
     (case thread_step sizeof_T A D S t (snd c t) (fst c) of
        None \<Rightarrow> c
      | Some (p, w) \<Rightarrow> (w, (snd c)(t := p)))"

definition exec ::
  "nat \<Rightarrow> alloc_strat \<Rightarrow> dispose_strat \<Rightarrow> sync_strat \<Rightarrow> tid list \<Rightarrow> config \<Rightarrow> config" where
  "exec sizeof_T A D S schedule c = foldl (sched_step sizeof_T A D S) c schedule"

text \<open>All threads about to call \<open>GetInstance\<close> in a fresh process.\<close>

definition start :: "addr option list \<Rightarrow> config" where
  "start answers = (initial answers, \<lambda>t. First_check)"

text \<open>The places at which a thread holds the guard.\<close>

fun holds_guard :: "pc \<Rightarrow> bool" where
  "holds_guard First_check = False"
| "holds_guard Acquire = False"
| "holds_guard Dereference = False"
| "holds_guard (Returned r) = False"
| "holds_guard p = True"

subsection \<open>Invariants of the interleaved system\<close>

text \<open>
  The guard of a strategy that locks is held by at most one thread, and it is free
  exactly when no thread is at a place under the guard.
\<close>

definition locking :: "sync_strat \<Rightarrow> bool" where
  "locking S = (S = MutexSynchronizationStrategy \<or> S = AtomicSynchronizationStrategy)"

definition exclusive :: "sync_strat \<Rightarrow> config \<Rightarrow> bool" where
  "exclusive S c =
     ((\<forall>i j. holds_guard (snd c i) \<and> holds_guard (snd c j) \<longrightarrow> i = j)
      \<and> (guard_free S (fst c) \<longleftrightarrow> (\<forall>i. \<not> holds_guard (snd c i))))"

text \<open>
  What a thread at a given place knows about the slot and about the number of
  payloads constructed so far, in a process that started fresh.
\<close>

fun place_ok :: "pc \<Rightarrow> world \<Rightarrow> bool" where
  "place_ok Test_destroyed w = (instance_ptr w = None \<and> constructions w = 0)"
| "place_ok Handle_dead w = (instance_ptr w = None \<and> constructions w = 0)"
| "place_ok Clear_destroyed w = (instance_ptr w = None \<and> constructions w = 0)"
| "place_ok Call_Allocate w = (instance_ptr w = None \<and> constructions w = 0)"
| "place_ok (Store a) w = (instance_ptr w = None \<and> constructions w = 1)"
| "place_ok Register w = (instance_ptr w \<noteq> None)"
| "place_ok Release w = (instance_ptr w \<noteq> None)"
| "place_ok Dereference w = (instance_ptr w \<noteq> None)"
| "place_ok (Returned (Inr a)) w = (instance_ptr w = Some a)"
| "place_ok p w = True"

fun is_Store :: "pc \<Rightarrow> bool" where
  "is_Store (Store a) = True"
| "is_Store p = False"

definition consistent :: "config \<Rightarrow> bool" where
  "consistent c =
     ((\<forall>i. place_ok (snd c i) (fst c))
      \<and> (instance_ptr (fst c) \<noteq> None \<longrightarrow> constructions (fst c) = 1)
      \<and> (instance_ptr (fst c) = None \<and> (\<forall>i. \<not> is_Store (snd c i)) \<longrightarrow> constructions (fst c) = 0))"

definition inv :: "sync_strat \<Rightarrow> config \<Rightarrow> bool" where
  "inv S c = (exclusive S c \<and> consistent c)"

text \<open>
  When the provider grants \<open>a\<close> to the first request of a fresh process, no thread is
  ever at a place that only an exception or a dead instance leads to.
\<close>

fun calm :: "addr \<Rightarrow> pc \<Rightarrow> bool" where
  "calm a Handle_dead = False"
| "calm a Clear_destroyed = False"
| "calm a (Unwind e) = False"
| "calm a (Returned (Inl e)) = False"
| "calm a (Returned (Inr b)) = (b = a)"
| "calm a (Store b) = (b = a)"
| "calm a p = True"

definition granted :: "addr \<Rightarrow> config \<Rightarrow> bool" where
  "granted a c =
     (\<not> was_destroyed (fst c)
      \<and> (constructions (fst c) = 0 \<longrightarrow> next_answer (fst c) = Some a)
      \<and> (\<forall>i. calm a (snd c i))
      \<and> (\<forall>b. instance_ptr (fst c) = Some b \<longrightarrow> b = a))"

text \<open>The number of steps a thread needs at most to finish its call.\<close>

fun remaining :: "pc \<Rightarrow> nat" where
  "remaining First_check = 11"
| "remaining Acquire = 10"
| "remaining Second_check = 9"
| "remaining Test_destroyed = 8"
| "remaining Handle_dead = 7"
| "remaining Clear_destroyed = 6"
| "remaining Call_Allocate = 5"
| "remaining (Store a) = 4"
| "remaining Register = 3"
| "remaining Release = 2"
| "remaining (Unwind e) = 1"
| "remaining Dereference = 1"
| "remaining (Returned r) = 0"

text \<open>
  Two schedules. In \<open>contended\<close> eight threads all pass the first test before any of
  them takes the guard; thread 0 takes it, threads 1 to 3 try in vain, thread 0
  creates the instance, and the others follow one by one. In \<open>racing\<close> two threads
  go through \<open>GetInstance\<close> in lockstep up to the call of \<open>Allocate\<close>.
\<close>

definition contended :: "tid list" where
  "contended =
     [0, 1, 2, 3, 4, 5, 6, 7,
      0, 1, 2, 3,
      0, 0, 0, 0, 0, 0, 0,
      1, 1, 1, 1, 2, 2, 2, 2, 3, 3, 3, 3, 4, 4, 4, 4,
      5, 5, 5, 5, 6, 6, 6, 6, 7, 7, 7, 7]"

definition racing :: "tid list" where
  "racing = [0, 1, 0, 1, 0, 1, 0, 1, 0, 1, 0, 0, 0, 0, 1, 1, 1, 1]"

section \<open>Basic facts about the primitives\<close>

lemmas prim_defs =
  emit_def request_storage_def release_storage_def construct_def destruct_def
  shared_ptr_release_def

lemmas count_defs = constructions_def destructions_def requests_def

lemma spin_free: "\<not> lock_flag w \<Longrightarrow> spin w = Some (w\<lparr>lock_flag := True\<rparr>)"
  by (subst spin.simps) simp

lemma spin_Some:
  assumes "spin w = Some w'"
  shows "\<not> lock_flag w"
proof (rule spin.raw_induct [where P = "\<lambda>w w'. \<not> lock_flag w", OF _ assms])
  fix spin' :: "world \<Rightarrow> world option" and w wa :: world
  assume IH: "\<And>x y. spin' x = Some y \<Longrightarrow> \<not> lock_flag x"
    and eq: "(if lock_flag w then spin' (w\<lparr>lock_flag := True\<rparr>)
              else Some (w\<lparr>lock_flag := True\<rparr>)) = Some wa"
  show "\<not> lock_flag w"
  proof
    assume "lock_flag w"
    with eq have "spin' (w\<lparr>lock_flag := True\<rparr>) = Some wa" by simp
    from IH [OF this] show False by simp
  qed
qed

lemma spin_held: "lock_flag w \<Longrightarrow> spin w = None"
  using spin_Some [of w] by (cases "spin w") auto

lemma GetInstance_total:
  "guard_free S w \<Longrightarrow> \<exists>r w'. GetInstance n A D S t w = Some (r, w') \<and> guard_free S w'"
  apply (cases S; cases "instance_ptr w")
  apply (auto simp: GetInstance_def spin_free emit_def split: prod.splits sum.splits option.splits)
  done

lemma GetInstance_hit:
  "instance_ptr w = Some a \<Longrightarrow> GetInstance n A D S t w = Some (Inr a, w)"
  by (simp add: GetInstance_def)

lemma GetInstance_Inr:
  "GetInstance n A D S t w = Some (Inr a, w') \<Longrightarrow> instance_ptr w' = Some a"
  by (auto simp: GetInstance_def split: prod.splits sum.splits option.splits if_splits)

lemma Allocate_Inl:
  assumes "Allocate A n w = (Inl e, w')"
  shows "e = bad_alloc \<and> next_answer w = None \<and> w' = emit (Request n None) (w\<lparr>provider := tl (provider w)\<rparr>)"
  using assms
  by (cases A) (auto simp: prim_defs next_answer_def Let_def split: list.splits option.splits)

lemma Allocate_Inr:
  assumes "Allocate A n w = (Inr a, w')"
  shows "next_answer w = Some a \<and> provider w' = tl (provider w)
     \<and> instance_ptr w' = instance_ptr w \<and> was_destroyed w' = was_destroyed w
     \<and> mutex w' = mutex w \<and> lock_flag w' = lock_flag w \<and> atexit w' = atexit w
     \<and> constructions w' = constructions w + 1 \<and> requests w' = requests w + 1
     \<and> ((A = SmartPointerAllocationStrategy \<longrightarrow> ptr_instance w = None)
          \<longrightarrow> a \<in> objects w' \<and> a \<in> blocks w' \<and> destructions w' = destructions w)"
  using assms
  by (cases A) (auto simp: prim_defs next_answer_def count_defs Let_def split: list.splits option.splits)

lemma Allocate_next:
  "next_answer w = Some a \<Longrightarrow> \<exists>w'. Allocate A n w = (Inr a, w')"
  "next_answer w = None \<Longrightarrow> \<exists>w'. Allocate A n w = (Inl bad_alloc, w')"
  by (cases A; auto simp: prim_defs next_answer_def Let_def split: list.splits option.splits)+


lemma acquire_free:
  assumes "guard_free S w"
  shows "\<exists>w1. SyncGuard S t w = Some w1 \<and> instance_ptr w1 = instance_ptr w
    \<and> was_destroyed w1 = was_destroyed w \<and> ptr_instance w1 = ptr_instance w
    \<and> atexit w1 = atexit w \<and> provider w1 = provider w \<and> blocks w1 = blocks w
    \<and> objects w1 = objects w \<and> events w1 = events w @ [GuardAcquire]
    \<and> (\<forall>v. guard_free S (SyncGuard_dtor S v))"
  using assms by (cases S) (auto simp: spin_free emit_def)

lemma acquired:
  assumes "SyncGuard S t w = Some w1"
  shows "guard_free S w \<and> instance_ptr w1 = instance_ptr w
    \<and> was_destroyed w1 = was_destroyed w \<and> ptr_instance w1 = ptr_instance w
    \<and> atexit w1 = atexit w \<and> provider w1 = provider w \<and> blocks w1 = blocks w
    \<and> objects w1 = objects w \<and> events w1 = events w @ [GuardAcquire]"
proof (cases S)
  case AtomicSynchronizationStrategy
  with assms obtain w0 where s: "spin w = Some w0" and w1: "w1 = emit GuardAcquire w0"
    by auto
  from s have "\<not> lock_flag w" by (rule spin_Some)
  with s have "w0 = w\<lparr>lock_flag := True\<rparr>" by (simp add: spin_free)
  with w1 \<open>\<not> lock_flag w\<close> AtomicSynchronizationStrategy show ?thesis by (simp add: emit_def)
qed (use assms in \<open>auto simp: emit_def split: option.splits\<close>)

lemma released [simp]:
  "guard_free S (SyncGuard_dtor S v)"
  "instance_ptr (SyncGuard_dtor S v) = instance_ptr v"
  "was_destroyed (SyncGuard_dtor S v) = was_destroyed v"
  "ptr_instance (SyncGuard_dtor S v) = ptr_instance v"
  "atexit (SyncGuard_dtor S v) = atexit v"
  "provider (SyncGuard_dtor S v) = provider v"
  "blocks (SyncGuard_dtor S v) = blocks v"
  "objects (SyncGuard_dtor S v) = objects v"
  "events (SyncGuard_dtor S v) = events v @ [GuardRelease]"
  by (cases S; simp add: emit_def)+


lemma emit_fields [simp]:
  "instance_ptr (emit e w) = instance_ptr w"
  "was_destroyed (emit e w) = was_destroyed w"
  "ptr_instance (emit e w) = ptr_instance w"
  "atexit (emit e w) = atexit w"
  "provider (emit e w) = provider w"
  "blocks (emit e w) = blocks w"
  "objects (emit e w) = objects w"
  "mutex (emit e w) = mutex w"
  "lock_flag (emit e w) = lock_flag w"
  "events (emit e w) = events w @ [e]"
  by (simp_all add: emit_def)

lemma create_Inl:
  assumes "create n A D w = (Inl e, w')"
  shows "instance_ptr w = None \<and> instance_ptr w' = None \<and> objects w' = objects w
    \<and> blocks w' = blocks w \<and> atexit w' = atexit w \<and> ptr_instance w' = ptr_instance w
    \<and> constructions w' = constructions w \<and> destructions w' = destructions w
    \<and> (e = runtime_error dead_message \<and> D = StandardDisposalStrategy \<and> was_destroyed w \<and> w' = w
        \<or> e = bad_alloc \<and> \<not> was_destroyed w' \<and> next_answer w = None
           \<and> requests w' = requests w + 1 \<and> provider w' = tl (provider w))"
  using assms
  apply (cases D)
  apply (auto simp: create_def count_defs next_answer_def split: if_splits prod.splits sum.splits dest!: Allocate_Inl)
  done

lemma RegisterForCleanup_fields [simp]:
  "instance_ptr (RegisterForCleanup D f w) = instance_ptr w"
  "was_destroyed (RegisterForCleanup D f w) = was_destroyed w"
  "ptr_instance (RegisterForCleanup D f w) = ptr_instance w"
  "provider (RegisterForCleanup D f w) = provider w"
  "blocks (RegisterForCleanup D f w) = blocks w"
  "objects (RegisterForCleanup D f w) = objects w"
  "mutex (RegisterForCleanup D f w) = mutex w"
  "lock_flag (RegisterForCleanup D f w) = lock_flag w"
  "events (RegisterForCleanup D f w) = events w"
  "atexit (RegisterForCleanup D f w) = (if D = ImmortalStrategy then atexit w else f # atexit w)"
  by (cases D; simp)+

lemma create_Inr:
  assumes "create n A D w = (Inr u, w')"
  shows "instance_ptr w' \<noteq> None \<and> (instance_ptr w \<noteq> None \<longrightarrow> w' = w)
    \<and> (instance_ptr w = None \<longrightarrow>
         (\<exists>a. instance_ptr w' = Some a \<and> next_answer w = Some a \<and> \<not> was_destroyed w'
            \<and> provider w' = tl (provider w)
            \<and> constructions w' = constructions w + 1 \<and> requests w' = requests w + 1
            \<and> atexit w' = (if D = ImmortalStrategy then atexit w else DestroyInstance_ptr # atexit w)
            \<and> ((A = SmartPointerAllocationStrategy \<longrightarrow> ptr_instance w = None)
          \<longrightarrow> a \<in> objects w' \<and> a \<in> blocks w' \<and> destructions w' = destructions w)
            \<and> (was_destroyed w \<longrightarrow> D \<noteq> StandardDisposalStrategy)))"
proof (cases "instance_ptr w")
  case (Some a)
  with assms show ?thesis by (simp add: create_def)
next
  case None
  define w1 where "w1 = (if was_destroyed w then w\<lparr>was_destroyed := False\<rparr> else w)"
  from assms None have ok: "was_destroyed w \<longrightarrow> D \<noteq> StandardDisposalStrategy"
    by (auto simp: create_def)
  with assms None obtain a w2 where al: "Allocate A n w1 = (Inr a, w2)"
    and w': "w' = RegisterForCleanup D DestroyInstance_ptr (w2\<lparr>instance_ptr := Some a\<rparr>)"
    by (cases D) (auto simp: create_def w1_def split: if_splits prod.splits sum.splits)
  have same: "next_answer w1 = next_answer w" "provider w1 = provider w"
    "constructions w1 = constructions w" "requests w1 = requests w"
    "destructions w1 = destructions w" "atexit w1 = atexit w" "ptr_instance w1 = ptr_instance w"
    "\<not> was_destroyed w1"
    by (simp_all add: w1_def next_answer_def count_defs)
  from Allocate_Inr [OF al] same w' None ok show ?thesis
    by (simp add: count_defs)
qed


lemma create_next:
  assumes "instance_ptr w = None" "was_destroyed w \<longrightarrow> D \<noteq> StandardDisposalStrategy"
  shows "next_answer w = Some a \<Longrightarrow> \<exists>w'. create n A D w = (Inr (), w')"
    and "next_answer w = None \<Longrightarrow> \<exists>w'. create n A D w = (Inl bad_alloc, w')"
proof -
  define w1 where "w1 = (if was_destroyed w then w\<lparr>was_destroyed := False\<rparr> else w)"
  have na: "next_answer w1 = next_answer w" by (simp add: w1_def next_answer_def)
  have cr: "create n A D w =
    (case Allocate A n w1 of
       (Inl e, w2) \<Rightarrow> (Inl e, w2)
     | (Inr a, w2) \<Rightarrow>
         (Inr (), RegisterForCleanup D DestroyInstance_ptr (w2\<lparr>instance_ptr := Some a\<rparr>)))"
    using assms by (cases D) (auto simp: create_def w1_def)
  show "next_answer w = Some a \<Longrightarrow> \<exists>w'. create n A D w = (Inr (), w')"
    using Allocate_next(1) [of w1 a A n] by (auto simp: cr na)
  show "next_answer w = None \<Longrightarrow> \<exists>w'. create n A D w = (Inl bad_alloc, w')"
    using Allocate_next(2) [of w1 A n] by (auto simp: cr na)
qed

lemma GetInstance_miss:
  assumes "instance_ptr w = None" "GetInstance n A D S t w = Some (r, w')"
  shows "\<exists>w1 q w2. SyncGuard S t w = Some w1 \<and> create n A D w1 = (q, w2)
    \<and> w' = SyncGuard_dtor S w2
    \<and> r = (case q of Inl e \<Rightarrow> Inl e | Inr u \<Rightarrow>
             (case instance_ptr w2 of None \<Rightarrow> Inl null_dereference | Some a \<Rightarrow> Inr a))"
proof (cases "SyncGuard S t w")
  case None
  with assms show ?thesis by (simp add: GetInstance_def)
next
  case (Some w1)
  obtain q w2 where c: "create n A D w1 = (q, w2)" by (cases "create n A D w1")
  from assms Some c have "w' = SyncGuard_dtor S w2
    \<and> r = (case q of Inl e \<Rightarrow> Inl e | Inr u \<Rightarrow>
             (case instance_ptr w2 of None \<Rightarrow> Inl null_dereference | Some a \<Rightarrow> Inr a))"
    by (cases q; cases "instance_ptr w2") (auto simp: GetInstance_def)
  with Some c show ?thesis by blast
qed

lemma GetInstance_Inl:
  assumes "GetInstance n A D S t w = Some (Inl e, w')"
  shows "guard_free S w \<and> guard_free S w' \<and> instance_ptr w = None \<and> instance_ptr w' = None
    \<and> objects w' = objects w \<and> blocks w' = blocks w \<and> atexit w' = atexit w
    \<and> ptr_instance w' = ptr_instance w
    \<and> constructions w' = constructions w \<and> destructions w' = destructions w
    \<and> (e = runtime_error dead_message \<and> D = StandardDisposalStrategy \<and> was_destroyed w
          \<and> was_destroyed w' \<and> requests w' = requests w \<and> provider w' = provider w
        \<or> e = bad_alloc \<and> \<not> was_destroyed w' \<and> next_answer w = None
           \<and> requests w' = requests w + 1 \<and> provider w' = tl (provider w))"
proof -
  have none: "instance_ptr w = None"
    using assms by (cases "instance_ptr w") (auto simp: GetInstance_hit)
  from GetInstance_miss [OF none assms] obtain w1 q w2 where
    g: "SyncGuard S t w = Some w1" and c: "create n A D w1 = (q, w2)"
    and w': "w' = SyncGuard_dtor S w2"
    and r: "Inl e = (case q of Inl e \<Rightarrow> Inl e | Inr u \<Rightarrow>
             (case instance_ptr w2 of None \<Rightarrow> Inl null_dereference | Some a \<Rightarrow> Inr a))"
    by blast
  from r c create_Inr [of n A D w1 _ w2] have q: "q = Inl e"
    by (cases q) (auto split: option.splits)
  note a = acquired [OF g]
  note b = create_Inl [OF c [unfolded q]]
  from a b have cnt: "constructions w' = constructions w" "destructions w' = destructions w"
    "requests w' = requests w2" "requests w1 = requests w" "next_answer w1 = next_answer w"
    by (simp_all add: w' count_defs next_answer_def)
  from a b cnt none show ?thesis
    by (auto simp: w')
qed


lemma GetInstance_created:
  assumes "instance_ptr w = None" "GetInstance n A D S t w = Some (Inr a, w')"
  shows "guard_free S w \<and> guard_free S w' \<and> instance_ptr w' = Some a
    \<and> next_answer w = Some a \<and> \<not> was_destroyed w' \<and> provider w' = tl (provider w)
    \<and> constructions w' = constructions w + 1 \<and> requests w' = requests w + 1
    \<and> atexit w' = (if D = ImmortalStrategy then atexit w else DestroyInstance_ptr # atexit w)
    \<and> ((A = SmartPointerAllocationStrategy \<longrightarrow> ptr_instance w = None)
          \<longrightarrow> a \<in> objects w' \<and> a \<in> blocks w' \<and> destructions w' = destructions w)
    \<and> (was_destroyed w \<longrightarrow> D \<noteq> StandardDisposalStrategy)"
proof -
  from GetInstance_miss [OF assms] obtain w1 q w2 where
    g: "SyncGuard S t w = Some w1" and c: "create n A D w1 = (q, w2)"
    and w': "w' = SyncGuard_dtor S w2"
    and r: "Inr a = (case q of Inl e \<Rightarrow> Inl e | Inr u \<Rightarrow>
             (case instance_ptr w2 of None \<Rightarrow> Inl null_dereference | Some a \<Rightarrow> Inr a))"
    by blast
  from r have q: "q = Inr ()" and i2: "instance_ptr w2 = Some a"
    by (cases q; cases "instance_ptr w2"; simp)+
  note a = acquired [OF g]
  note b = create_Inr [OF c [unfolded q]]
  from a have same: "constructions w1 = constructions w" "destructions w1 = destructions w"
    "requests w1 = requests w" "next_answer w1 = next_answer w"
    by (simp_all add: count_defs next_answer_def)
  have after: "constructions w' = constructions w2" "destructions w' = destructions w2"
    "requests w' = requests w2"
    by (simp_all add: w' count_defs)
  from a b same after i2 assms(1) show ?thesis
    by (auto simp: w')
qed

lemma GetInstance_next:
  assumes "guard_free S w" "instance_ptr w = None"
    "was_destroyed w \<longrightarrow> D \<noteq> StandardDisposalStrategy"
  shows "next_answer w = Some a \<Longrightarrow> \<exists>w'. GetInstance n A D S t w = Some (Inr a, w')"
    and "next_answer w = None \<Longrightarrow> \<exists>w'. GetInstance n A D S t w = Some (Inl bad_alloc, w')"
proof -
  from acquire_free [OF assms(1), of t] obtain w1 where
    g: "SyncGuard S t w = Some w1" and i: "instance_ptr w1 = None"
    and d: "was_destroyed w1 = was_destroyed w" and p: "provider w1 = provider w"
    using assms(2) by auto
  have na: "next_answer w1 = next_answer w" by (simp add: next_answer_def p)
  {
    assume "next_answer w = Some a"
    with create_next(1) [of w1 D a n A] i d assms(3) na
    obtain w2 where c: "create n A D w1 = (Inr (), w2)" by auto
    from create_Inr [OF c] i na \<open>next_answer w = Some a\<close> have "instance_ptr w2 = Some a"
      by auto
    with g c assms(2) show "\<exists>w'. GetInstance n A D S t w = Some (Inr a, w')"
      by (simp add: GetInstance_def)
  }
  {
    assume "next_answer w = None"
    with create_next(2) [of w1 D n A] i d assms(3) na
    obtain w2 where c: "create n A D w1 = (Inl bad_alloc, w2)" by auto
    with g assms(2) show "\<exists>w'. GetInstance n A D S t w = Some (Inl bad_alloc, w')"
      by (simp add: GetInstance_def)
  }
qed

lemma DestroyInstance_effect:
  assumes "guard_free S w"
  shows "\<exists>w'. DestroyInstance A S t w = Some w'
     \<and> instance_ptr w' = None \<and> was_destroyed w' \<and> guard_free S w'
     \<and> events w' = events (Deallocate A (instance_ptr w) (emit GuardAcquire w)) @ [GuardRelease]
     \<and> objects w' = objects (Deallocate A (instance_ptr w) w)
     \<and> blocks w' = blocks (Deallocate A (instance_ptr w) w)
     \<and> (A = SmartPointerAllocationStrategy \<longrightarrow> ptr_instance w' = None)
     \<and> provider w' = provider w \<and> atexit w' = atexit w
     \<and> constructions w' = constructions w \<and> requests w' = requests w"
  using assms
  apply (cases S; cases A)
  apply (auto simp: DestroyInstance_def spin_free prim_defs count_defs split: option.splits)
  done

lemma GetInstance_dead_Standard:
  assumes "guard_free S w" "instance_ptr w = None" "was_destroyed w"
  shows "GetInstance n A StandardDisposalStrategy S t w
           = Some (Inl (runtime_error dead_message), w\<lparr>events := events w @ [GuardAcquire, GuardRelease]\<rparr>)"
  using assms
  apply (cases S)
  apply (auto simp: GetInstance_def create_def spin_free emit_def)
  done

lemma GetInstance_keeps_alive:
  assumes "GetInstance n A D S t w = Some (r, w')" "was_destroyed w'"
  shows "was_destroyed w"
proof (cases "instance_ptr w")
  case (Some a)
  with assms show ?thesis by (simp add: GetInstance_hit)
next
  case None
  show ?thesis
  proof (cases r)
    case (Inl e)
    with GetInstance_Inl [of n A D S t w e w'] assms show ?thesis by auto
  next
    case (Inr a)
    with GetInstance_created [OF None, of n A D S t a w'] assms show ?thesis by auto
  qed
qed


lemma Deallocate_events:
  "events (Deallocate A i w) = events w @
     (case (if A = SmartPointerAllocationStrategy then ptr_instance w else i) of
        None \<Rightarrow> [] | Some a \<Rightarrow> [Destruct a, Free a])"
  by (cases A) (auto simp: prim_defs split: option.splits)

lemma guard_free_atexit [simp]: "guard_free S (w\<lparr>atexit := fs\<rparr>) = guard_free S w"
  by (cases S) simp_all

lemma run_dead:
  assumes "guard_free S w" "instance_ptr w = None" "was_destroyed w"
  shows "\<exists>w'. run n A StandardDisposalStrategy S acts w
        = Some (replicate (length (filter is_Access acts)) (Inl (runtime_error dead_message)), w')
     \<and> guard_free S w' \<and> instance_ptr w' = None \<and> was_destroyed w'
     \<and> constructions w' = constructions w \<and> requests w' = requests w
     \<and> provider w' = provider w"
  using assms
proof (induction acts arbitrary: w)
  case Nil
  then show ?case by simp
next
  case (Cons act acts)
  show ?case
  proof (cases act)
    case (Access t)
    let ?w1 = "w\<lparr>events := events w @ [GuardAcquire, GuardRelease]\<rparr>"
    have g: "GetInstance n A StandardDisposalStrategy S t w
        = Some (Inl (runtime_error dead_message), ?w1)"
      using Cons.prems by (rule GetInstance_dead_Standard)
    have "guard_free S ?w1" using Cons.prems(1) by (cases S) simp_all
    moreover have "instance_ptr ?w1 = None" "was_destroyed ?w1" using Cons.prems by simp_all
    ultimately obtain w' where
      "run n A StandardDisposalStrategy S acts ?w1
        = Some (replicate (length (filter is_Access acts)) (Inl (runtime_error dead_message)), w')"
      "guard_free S w'" "instance_ptr w' = None" "was_destroyed w'"
      "constructions w' = constructions ?w1" "requests w' = requests ?w1"
      "provider w' = provider ?w1"
      using Cons.IH [of ?w1] by blast
    with g Access show ?thesis by (simp add: count_defs)
  next
    case (AtExit t)
    show ?thesis
    proof (cases "atexit w")
      case Nil
      with AtExit Cons.IH [OF Cons.prems] show ?thesis by simp
    next
      case (Cons f fs)
      let ?w0 = "w\<lparr>atexit := fs\<rparr>"
      have "guard_free S ?w0" using Cons.prems(1) by simp
      from DestroyInstance_effect [OF this, of A t] obtain w1 where
        d: "DestroyInstance A S t ?w0 = Some w1" "instance_ptr w1 = None" "was_destroyed w1"
          "guard_free S w1" "provider w1 = provider ?w0"
          "constructions w1 = constructions ?w0" "requests w1 = requests ?w0"
        by blast
      from Cons.IH [OF d(4) d(2) d(3)] obtain w' where
        "run n A StandardDisposalStrategy S acts w1
          = Some (replicate (length (filter is_Access acts)) (Inl (runtime_error dead_message)), w')"
        "guard_free S w'" "instance_ptr w' = None" "was_destroyed w'"
        "constructions w' = constructions w1" "requests w' = requests w1"
        "provider w' = provider w1"
        by blast
      with d AtExit Cons show ?thesis by (cases f) (simp add: count_defs)
    qed
  qed
qed

lemma GetInstance_Immortal:
  assumes "GetInstance n A ImmortalStrategy S t w = Some (r, w')"
    and "atexit w = []" and "\<not> was_destroyed w"
    and "A = SmartPointerAllocationStrategy \<longrightarrow> instance_ptr w = None \<longrightarrow> ptr_instance w = None"
  shows "atexit w' = [] \<and> \<not> was_destroyed w' \<and> destructions w' = destructions w
    \<and> (A = SmartPointerAllocationStrategy \<longrightarrow> instance_ptr w' = None \<longrightarrow> ptr_instance w' = None)"
proof (cases "instance_ptr w")
  case (Some a)
  with assms show ?thesis by (simp add: GetInstance_hit)
next
  case None
  show ?thesis
  proof (cases r)
    case (Inl e)
    with GetInstance_Inl [of n A ImmortalStrategy S t w e w'] assms None show ?thesis by auto
  next
    case (Inr a)
    with GetInstance_created [OF None, of n A ImmortalStrategy S t a w'] assms None
    show ?thesis by auto
  qed
qed

lemma run_Immortal:
  assumes "guard_free S w" and "atexit w = []" and "\<not> was_destroyed w"
    and "A = SmartPointerAllocationStrategy \<longrightarrow> instance_ptr w = None \<longrightarrow> ptr_instance w = None"
  shows "\<exists>rs w'. run n A ImmortalStrategy S acts w = Some (rs, w')
    \<and> length rs = length (filter is_Access acts)
    \<and> atexit w' = [] \<and> \<not> was_destroyed w' \<and> destructions w' = destructions w"
  using assms
proof (induction acts arbitrary: w)
  case Nil
  then show ?case by simp
next
  case (Cons act acts)
  show ?case
  proof (cases act)
    case (Access t)
    from GetInstance_total [OF Cons.prems(1), of n A ImmortalStrategy t] obtain r w1 where
      g: "GetInstance n A ImmortalStrategy S t w = Some (r, w1)" and free: "guard_free S w1"
      by blast
    note inv = GetInstance_Immortal [OF g Cons.prems(2-4)]
    from inv have i1: "atexit w1 = []" and i2: "\<not> was_destroyed w1"
      and i3: "A = SmartPointerAllocationStrategy \<longrightarrow> instance_ptr w1 = None \<longrightarrow> ptr_instance w1 = None"
      by blast+
    from Cons.IH [OF free i1 i2 i3] obtain rs w' where
      "run n A ImmortalStrategy S acts w1 = Some (rs, w')"
      "length rs = length (filter is_Access acts)"
      "atexit w' = []" "\<not> was_destroyed w'" "destructions w' = destructions w1"
      by blast
    with g inv Access show ?thesis by simp
  next
    case (AtExit t)
    with Cons.IH [OF Cons.prems] Cons.prems(2) show ?thesis by simp
  qed
qed

lemma run_hit:
  assumes "instance_ptr w = Some a"
  shows "run n A D S (map Access ts) w = Some (replicate (length ts) (Inr a), w)"
  using assms by (induction ts) (simp_all add: GetInstance_hit)

lemma GetInstance_constructions:
  assumes "GetInstance n A D S t w = Some (r, w')"
  shows "constructions w' = constructions w + (if instance_ptr w = None \<and> \<not> isl r then 1 else 0)"
proof (cases "instance_ptr w")
  case (Some a)
  with assms show ?thesis by (simp add: GetInstance_hit)
next
  case None
  show ?thesis
  proof (cases r)
    case (Inl e)
    with GetInstance_Inl [of n A D S t w e w'] assms None show ?thesis by auto
  next
    case (Inr a)
    with GetInstance_created [OF None, of n A D S t a w'] assms None show ?thesis by auto
  qed
qed

lemma GetInstance_ignores_thread:
  "GetInstance n A D ThreadLocalStrategy t w = GetInstance n A D ThreadLocalStrategy t' w"
  by (simp add: GetInstance_def)

lemma GetThreadLocalInstance_per_thread:
  "(case GetThreadLocalInstance 8 1 (initial [Some 100, Some 200]) of
      (r1, w1) \<Rightarrow> (r1, fst (GetThreadLocalInstance 8 2 w1))) = (Inr 100, Inr 200)"
  by (simp add: GetThreadLocalInstance_def prim_defs initial_def)

section \<open>One instance\<close>

text \<open>
  Claim C1. For every allocation, disposal and synchronization strategy, take any
  world in which the guard is free and let any threads call \<open>GetInstance\<close> one after
  the other, with no teardown in between. Every call returns. The results are some
  calls that throw (storage exhausted, or the instance dead under the standard
  policy) followed by calls that all return the same address, which is the address
  in the slot; so any two references returned are equal. When the slot is occupied at
  the start, every call returns its content and the world is unchanged. The first
  call creates the instance: when the slot is empty, the provider grants the block
  \<open>b\<close> and the instance is not dead under the standard policy, every call returns
  \<open>b\<close>, the slot holds \<open>b\<close> and exactly one payload has been constructed. In
  general exactly one payload is constructed when some call returns from a slot that
  was empty, and none otherwise; the object returned is live in its block. Since this
  holds from every such world, the address returned can change only where a
  teardown lies in between.
\<close>

theorem GetInstance_unique_instance:
  assumes "guard_free S w"
  shows "\<exists>rs w' es a m. run sizeof_T A D S (map Access ts) w = Some (rs, w')
    \<and> rs = es @ replicate m (Inr a) \<and> list_all isl es \<and> length rs = length ts
    \<and> (\<forall>b c. Inr b \<in> set rs \<and> Inr c \<in> set rs \<longrightarrow> b = c)
    \<and> (\<forall>b. Inr b \<in> set rs \<longrightarrow> instance_ptr w' = Some b)
    \<and> (\<forall>b. instance_ptr w = Some b \<longrightarrow> rs = replicate (length ts) (Inr b) \<and> w' = w)
    \<and> constructions w' \<le> constructions w + 1
    \<and> constructions w'
        = constructions w + (if instance_ptr w = None \<and> (\<exists>b. Inr b \<in> set rs) then 1 else 0)
    \<and> (instance_ptr w = None \<and> (A = SmartPointerAllocationStrategy \<longrightarrow> ptr_instance w = None)
          \<longrightarrow> (\<forall>b. Inr b \<in> set rs \<longrightarrow> b \<in> objects w' \<and> b \<in> blocks w'))
    \<and> (\<forall>b. instance_ptr w = None \<and> next_answer w = Some b
            \<and> (was_destroyed w \<longrightarrow> D \<noteq> StandardDisposalStrategy) \<and> ts \<noteq> []
          \<longrightarrow> rs = replicate (length ts) (Inr b) \<and> instance_ptr w' = Some b
              \<and> constructions w' = constructions w + 1)"
  using assms
proof (induction ts arbitrary: w)
  case Nil
  show ?case by simp
next
  case (Cons t ts)
  from GetInstance_total [OF Cons.prems, of sizeof_T A D t] obtain r w1 where
    g: "GetInstance sizeof_T A D S t w = Some (r, w1)" and free: "guard_free S w1"
    by blast
  note cnt = GetInstance_constructions [OF g]
  show ?case
  proof (cases r)
    case (Inr a)
    from GetInstance_Inr [OF g [unfolded Inr]] have i1: "instance_ptr w1 = Some a" .
    have rest: "run sizeof_T A D S (map Access ts) w1 = Some (replicate (length ts) (Inr a), w1)"
      using i1 by (rule run_hit)
    have hit: "w1 = w" if "instance_ptr w = Some b" for b
      using g that by (simp add: GetInstance_hit)
    have same: "b = a" if "instance_ptr w = Some b" for b
      using g that Inr by (simp add: GetInstance_hit)
    have made: "next_answer w = Some a \<and> constructions w1 = constructions w + 1
        \<and> ((A = SmartPointerAllocationStrategy \<longrightarrow> ptr_instance w = None)
              \<longrightarrow> a \<in> objects w1 \<and> a \<in> blocks w1)"
      if "instance_ptr w = None"
      using GetInstance_created [OF that g [unfolded Inr]] by simp
    let ?rs = "replicate (Suc (length ts)) (Inr a) :: (error + addr) list"
    have r1: "run sizeof_T A D S (map Access (t # ts)) w = Some (?rs, w1)"
      using g Inr rest by simp
    have r2: "?rs = [] @ replicate (Suc (length ts)) (Inr a)" by simp
    have r3: "list_all isl ([] :: (error + addr) list)" by simp
    have r4: "length ?rs = length (t # ts)" by simp
    have r5: "\<forall>b c. Inr b \<in> set ?rs \<and> Inr c \<in> set ?rs \<longrightarrow> b = c" by auto
    have r6: "\<forall>b. Inr b \<in> set ?rs \<longrightarrow> instance_ptr w1 = Some b" using i1 by auto
    have r7: "\<forall>b. instance_ptr w = Some b \<longrightarrow> ?rs = replicate (length (t # ts)) (Inr b) \<and> w1 = w"
      using hit same by simp
    have r8: "constructions w1 \<le> constructions w + 1" using cnt by simp
    have ex: "\<exists>b. Inr b \<in> set ?rs" by auto
    have r9: "constructions w1
        = constructions w + (if instance_ptr w = None \<and> (\<exists>b. Inr b \<in> set ?rs) then 1 else 0)"
      using cnt Inr ex by simp
    have r10: "instance_ptr w = None \<and> (A = SmartPointerAllocationStrategy \<longrightarrow> ptr_instance w = None)
          \<longrightarrow> (\<forall>b. Inr b \<in> set ?rs \<longrightarrow> b \<in> objects w1 \<and> b \<in> blocks w1)"
      using made by auto
    have r11: "\<forall>b. instance_ptr w = None \<and> next_answer w = Some b
            \<and> (was_destroyed w \<longrightarrow> D \<noteq> StandardDisposalStrategy) \<and> t # ts \<noteq> []
          \<longrightarrow> ?rs = replicate (length (t # ts)) (Inr b) \<and> instance_ptr w1 = Some b
              \<and> constructions w1 = constructions w + 1"
      using made i1 by auto
    from r1 r2 r3 r4 r5 r6 r7 r8 r9 r10 r11 show ?thesis by blast
  next
    case (Inl e)
    with g have none: "instance_ptr w = None"
      by (cases "instance_ptr w") (auto simp: GetInstance_hit)
    note f = GetInstance_Inl [OF g [unfolded Inl]]
    from cnt Inl have c1: "constructions w1 = constructions w" by simp
    from f have n1: "instance_ptr w1 = None" and h1: "ptr_instance w1 = ptr_instance w"
      by simp_all
    have refused: "\<not> (next_answer w = Some b \<and> (was_destroyed w \<longrightarrow> D \<noteq> StandardDisposalStrategy))"
      for b
      using f by auto
    from Cons.IH [OF free] obtain rs w' es a m where
      ih: "run sizeof_T A D S (map Access ts) w1 = Some (rs, w')"
        "rs = es @ replicate m (Inr a)" "list_all isl es" "length rs = length ts"
        "\<forall>b c. Inr b \<in> set rs \<and> Inr c \<in> set rs \<longrightarrow> b = c"
        "\<forall>b. Inr b \<in> set rs \<longrightarrow> instance_ptr w' = Some b"
        "constructions w' \<le> constructions w1 + 1"
        "constructions w'
          = constructions w1 + (if instance_ptr w1 = None \<and> (\<exists>b. Inr b \<in> set rs) then 1 else 0)"
        "instance_ptr w1 = None \<and> (A = SmartPointerAllocationStrategy \<longrightarrow> ptr_instance w1 = None)
          \<longrightarrow> (\<forall>b. Inr b \<in> set rs \<longrightarrow> b \<in> objects w' \<and> b \<in> blocks w')"
      by blast
    have r1: "run sizeof_T A D S (map Access (t # ts)) w = Some (Inl e # rs, w')"
      using g Inl ih(1) by simp
    have r2: "Inl e # rs = (Inl e # es) @ replicate m (Inr a)" using ih(2) by simp
    have r3: "list_all isl (Inl e # es)" using ih(3) by simp
    have r4: "length (Inl e # rs) = length (t # ts)" using ih(4) by simp
    have r5: "\<forall>b c. Inr b \<in> set (Inl e # rs) \<and> Inr c \<in> set (Inl e # rs) \<longrightarrow> b = c"
      using ih(5) by simp
    have r6: "\<forall>b. Inr b \<in> set (Inl e # rs) \<longrightarrow> instance_ptr w' = Some b"
      using ih(6) by simp
    have r7: "\<forall>b. instance_ptr w = Some b
        \<longrightarrow> Inl e # rs = replicate (length (t # ts)) (Inr b) \<and> w' = w"
      using none by simp
    have r8: "constructions w' \<le> constructions w + 1" using ih(7) c1 by simp
    have r9: "constructions w'
        = constructions w
          + (if instance_ptr w = None \<and> (\<exists>b. Inr b \<in> set (Inl e # rs)) then 1 else 0)"
      using ih(8) c1 n1 none by simp
    have r10: "instance_ptr w = None \<and> (A = SmartPointerAllocationStrategy \<longrightarrow> ptr_instance w = None)
          \<longrightarrow> (\<forall>b. Inr b \<in> set (Inl e # rs) \<longrightarrow> b \<in> objects w' \<and> b \<in> blocks w')"
      using ih(9) n1 h1 by simp
    have r11: "\<forall>b. instance_ptr w = None \<and> next_answer w = Some b
            \<and> (was_destroyed w \<longrightarrow> D \<noteq> StandardDisposalStrategy) \<and> t # ts \<noteq> []
          \<longrightarrow> Inl e # rs = replicate (length (t # ts)) (Inr b) \<and> instance_ptr w' = Some b
              \<and> constructions w' = constructions w + 1"
      using refused by blast
    from r1 r2 r3 r4 r5 r6 r7 r8 r9 r10 r11 show ?thesis by blast
  qed
qed

theorem GetInstance_unique_instance_witness:
  "guard_free MutexSynchronizationStrategy (initial [Some 100, Some 200])
   \<and> instance_ptr (initial [Some 100, Some 200]) = None
   \<and> next_answer (initial [Some 100, Some 200]) = Some 100
   \<and> (\<exists>w'. run 8 NewAllocationStrategy StandardDisposalStrategy MutexSynchronizationStrategy
              (map Access [0, 1, 2]) (initial [Some 100, Some 200])
            = Some ([Inr 100, Inr 100, Inr 100], w')
        \<and> instance_ptr w' = Some 100 \<and> 100 \<in> objects w' \<and> 100 \<in> blocks w'
        \<and> constructions w' = constructions (initial [Some 100, Some 200]) + 1)"
proof -
  let ?w = "initial [Some 100, Some 200]"
  have free: "guard_free MutexSynchronizationStrategy ?w"
    and none: "instance_ptr ?w = None" and na: "next_answer ?w = Some 100"
    and alive: "\<not> was_destroyed ?w" and h: "ptr_instance ?w = None"
    by (simp_all add: initial_def next_answer_def)
  from GetInstance_unique_instance [OF free, of 8 NewAllocationStrategy StandardDisposalStrategy
      "[0, 1, 2]"]
  obtain rs w' where
    r: "run 8 NewAllocationStrategy StandardDisposalStrategy MutexSynchronizationStrategy
          (map Access [0, 1, 2]) ?w = Some (rs, w')"
    and o: "instance_ptr ?w = None
          \<and> (NewAllocationStrategy = SmartPointerAllocationStrategy \<longrightarrow> ptr_instance ?w = None)
          \<longrightarrow> (\<forall>b. Inr b \<in> set rs \<longrightarrow> b \<in> objects w' \<and> b \<in> blocks w')"
    and c: "\<forall>b. instance_ptr ?w = None \<and> next_answer ?w = Some b
            \<and> (was_destroyed ?w \<longrightarrow> StandardDisposalStrategy \<noteq> StandardDisposalStrategy)
            \<and> [0, 1, 2 :: nat] \<noteq> []
          \<longrightarrow> rs = replicate (length [0, 1, 2 :: nat]) (Inr b) \<and> instance_ptr w' = Some b
              \<and> constructions w' = constructions ?w + 1"
    by blast
  from c none na alive have rs: "rs = [Inr 100, Inr 100, Inr 100]"
    and made: "instance_ptr w' = Some 100" "constructions w' = constructions ?w + 1"
    by (simp_all add: eval_nat_numeral)
  from o none rs have "100 \<in> objects w'" "100 \<in> blocks w'" by simp_all
  with r rs made free none na show ?thesis by blast
qed

section \<open>The per-thread strategy\<close>

text \<open>
  Claim C2 does not hold of the code. \<open>instance_ptr_\<close> and \<open>was_destroyed_\<close> are
  plain static members, one per instantiation and not one per thread, and
  \<open>GetInstance\<close> never calls \<open>GetThreadLocalInstance\<close>. With \<open>ThreadLocalStrategy\<close> (the
  \<open>ThreadLogger\<close> of the demonstration program) thread 1 and then thread 2 call
  \<open>GetInstance\<close>: both get the address 100, one payload is constructed, and the
  second block the provider could grant is never requested.
\<close>

theorem ThreadLocalStrategy_shares_instance:
  "map_option (\<lambda>(rs, w'). (rs, instance_ptr w', constructions w', provider w'))
     (run 8 NewAllocationStrategy ImmortalStrategy ThreadLocalStrategy
        [Access 1, Access 2, Access 1] (initial [Some 100, Some 200]))
   = Some ([Inr 100, Inr 100, Inr 100], Some 100, 1, [Some 200])"
  by (simp add: GetInstance_def create_def prim_defs initial_def constructions_def)

section \<open>The immortal policy\<close>

text \<open>
  Claim C5. \<open>ImmortalStrategy::RegisterForCleanup\<close> leaves the world as it is. So in
  every execution from the initial state, whatever calls of \<open>GetInstance\<close> are made
  and whenever the runtime looks into the \<open>std::atexit\<close> registry, every call
  returns, the registry stays empty, \<open>was_destroyed_\<close> stays false and no payload is
  ever destroyed.
\<close>

theorem Immortal_never_destroyed:
  "\<exists>rs w'. run sizeof_T A ImmortalStrategy S acts (initial answers) = Some (rs, w')
    \<and> length rs = length (filter is_Access acts)
    \<and> atexit w' = [] \<and> \<not> was_destroyed w' \<and> destructions w' = 0
    \<and> RegisterForCleanup ImmortalStrategy cleanup w = w"
proof -
  have "guard_free S (initial answers)" by (cases S) (simp_all add: initial_def)
  moreover have "atexit (initial answers) = []" "\<not> was_destroyed (initial answers)"
    "ptr_instance (initial answers) = None" "destructions (initial answers) = 0"
    by (simp_all add: initial_def destructions_def)
  ultimately show ?thesis
    using run_Immortal [of S "initial answers" A sizeof_T acts] by auto
qed

theorem Immortal_never_destroyed_witness:
  "\<exists>rs w'. run 8 NewAllocationStrategy ImmortalStrategy NoSynchronizationStrategy
       [Access 0, Access 1, AtExit 0, Access 0] (initial [Some 100]) = Some (rs, w')
    \<and> length rs = 3 \<and> atexit w' = [] \<and> \<not> was_destroyed w' \<and> destructions w' = 0"
  using Immortal_never_destroyed [of 8 NewAllocationStrategy NoSynchronizationStrategy
      "[Access 0, Access 1, AtExit 0, Access 0]" "[Some 100]"]
  by (auto simp del: run.simps)

section \<open>The manual-memory allocation strategy\<close>

text \<open>
  Claim C7, as the code has it. \<open>RawMemoryAllocationStrategy::Allocate\<close> throws
  \<open>std::bad_alloc\<close>, and nothing else, exactly when the request for a block of
  \<open>sizeof(T)\<close> bytes fails, and then constructs nothing; when the request yields the
  block \<open>a\<close>, it constructs the payload in that block and returns \<open>a\<close>.
  \<open>Deallocate\<close> of a non-null pointer \<open>b\<close> runs the destructor of the object at \<open>b\<close>
  and then releases the block \<open>b\<close>; \<open>Deallocate\<close> of the null pointer does nothing.
\<close>

theorem RawMemory_Allocate_Deallocate:
  "(fst (Allocate RawMemoryAllocationStrategy sizeof_T w) = Inl bad_alloc
      \<longleftrightarrow> fst (request_storage sizeof_T w) = None)
   \<and> (\<forall>e. fst (Allocate RawMemoryAllocationStrategy sizeof_T w) = Inl e \<longrightarrow> e = bad_alloc)
   \<and> (fst (request_storage sizeof_T w) = None \<longrightarrow>
        events (snd (Allocate RawMemoryAllocationStrategy sizeof_T w))
          = events w @ [Request sizeof_T None]
        \<and> objects (snd (Allocate RawMemoryAllocationStrategy sizeof_T w)) = objects w)
   \<and> (\<forall>a. fst (request_storage sizeof_T w) = Some a \<longrightarrow>
        (\<exists>w'. Allocate RawMemoryAllocationStrategy sizeof_T w = (Inr a, w')
           \<and> a \<in> blocks w' \<and> a \<in> objects w'
           \<and> events w' = events w @ [Request sizeof_T (Some a), Construct a]))
   \<and> events (Deallocate RawMemoryAllocationStrategy (Some b) v) = events v @ [Destruct b, Free b]
   \<and> b \<notin> objects (Deallocate RawMemoryAllocationStrategy (Some b) v)
   \<and> b \<notin> blocks (Deallocate RawMemoryAllocationStrategy (Some b) v)
   \<and> Deallocate RawMemoryAllocationStrategy None v = v"
  by (auto simp: prim_defs split: list.splits option.splits)

theorem RawMemory_Allocate_Deallocate_witness:
  "fst (request_storage 8 (initial [Some 100])) = Some 100
   \<and> fst (Allocate RawMemoryAllocationStrategy 8 (initial [Some 100])) = Inr 100
   \<and> events (snd (Allocate RawMemoryAllocationStrategy 8 (initial [Some 100])))
       = [Request 8 (Some 100), Construct 100]
   \<and> fst (request_storage 8 (initial [None])) = None
   \<and> fst (Allocate RawMemoryAllocationStrategy 8 (initial [None])) = Inl bad_alloc
   \<and> events (snd (Allocate RawMemoryAllocationStrategy 8 (initial [None]))) = [Request 8 None]"
proof -
  have granted: "fst (request_storage 8 (initial [Some 100])) = Some 100"
    by (simp add: request_storage_def initial_def)
  have refused: "fst (request_storage 8 (initial [None])) = None"
    by (simp add: request_storage_def initial_def)
  have quiet: "events (initial [Some 100]) = []" "events (initial [None]) = []"
    by (simp_all add: initial_def)
  note yes = RawMemory_Allocate_Deallocate [of 8 "initial [Some 100]" 0 "initial []"]
  note no = RawMemory_Allocate_Deallocate [of 8 "initial [None]" 0 "initial []"]
  from yes granted obtain w' where
    "Allocate RawMemoryAllocationStrategy 8 (initial [Some 100]) = (Inr 100, w')"
    "events w' = events (initial [Some 100]) @ [Request 8 (Some 100), Construct 100]"
    by (auto simp del: Allocate.simps)
  then have a: "fst (Allocate RawMemoryAllocationStrategy 8 (initial [Some 100])) = Inr 100
    \<and> events (snd (Allocate RawMemoryAllocationStrategy 8 (initial [Some 100])))
       = [Request 8 (Some 100), Construct 100]"
    by (simp add: quiet del: Allocate.simps)
  from no refused
  have b: "fst (Allocate RawMemoryAllocationStrategy 8 (initial [None])) = Inl bad_alloc"
    "events (snd (Allocate RawMemoryAllocationStrategy 8 (initial [None])))
       = events (initial [None]) @ [Request 8 None]"
    by (auto simp del: Allocate.simps)
  show ?thesis using a b granted refused by (simp add: quiet del: Allocate.simps)
qed

text \<open>
  The sentence of C7 on \<open>Deallocate\<close> read for every argument fails at the null
  pointer: the test \<open>if (instance)\<close> skips the destructor and \<open>std::free\<close>.
\<close>

theorem RawMemory_Deallocate_null_counterexample:
  "events (Deallocate RawMemoryAllocationStrategy None (initial [])) = []
   \<and> Deallocate RawMemoryAllocationStrategy None (initial []) = initial []"
  by (simp add: initial_def)

section \<open>The destroy routine\<close>

lemma Deallocate_guard:
  "mutex (Deallocate A i w) = mutex w" "lock_flag (Deallocate A i w) = lock_flag w"
  by (cases A; simp add: prim_defs split: option.splits)+

lemma SyncGuard_held: "\<not> guard_free S w \<Longrightarrow> SyncGuard S t w = None"
  by (cases S) (auto simp: spin_held)

lemma SyncGuard_owner:
  assumes "SyncGuard S t w = Some w1"
  shows "(S = MutexSynchronizationStrategy \<longrightarrow> mutex w1 = Some t)
    \<and> (S = AtomicSynchronizationStrategy \<longrightarrow> lock_flag w1)"
proof (cases S)
  case AtomicSynchronizationStrategy
  with assms obtain w0 where s: "spin w = Some w0" and w1: "w1 = emit GuardAcquire w0"
    by auto
  from spin_Some [OF s] s have "w0 = w\<lparr>lock_flag := True\<rparr>" by (simp add: spin_free)
  with w1 AtomicSynchronizationStrategy show ?thesis by simp
qed (use assms in \<open>auto split: option.splits\<close>)

lemma run_callers_keep_alive:
  assumes "run n A D S acts v = Some (rs, v')" "list_all is_Access acts" "was_destroyed v'"
  shows "was_destroyed v"
  using assms
proof (induction acts arbitrary: v rs)
  case Nil
  then show ?case by simp
next
  case (Cons act acts)
  from Cons.prems(2) obtain t where act: "act = Access t" by (cases act) simp_all
  from Cons.prems(1) act obtain r v1 rs1 where
    g: "GetInstance n A D S t v = Some (r, v1)"
    and rest: "run n A D S acts v1 = Some (rs1, v')"
    by (auto split: option.splits prod.splits)
  from Cons.IH [OF rest] Cons.prems(2,3) have "was_destroyed v1" by simp
  with g show ?case by (rule GetInstance_keeps_alive)
qed

text \<open>
  Claim C8. Called with the guard free, \<open>DestroyInstance\<close> returns, and it is the
  guard's constructor, then \<open>Deallocate\<close> on the slot's content, then the slot set to
  null and \<open>was_destroyed_\<close> set, then the guard's destructor. The guard is really
  held in between: the mutex is owned by the calling thread (the atomic flag is set)
  from the constructor until the destructor. Called while the guard is held, the
  routine does not return. In the log: the guard is acquired, the instance is
  released (destructor, then release of the block; nothing when there is no
  instance), the guard is released. Afterwards the slot is empty, \<open>was_destroyed_\<close>
  is set and the guard is free. The routine is private: no call of \<open>GetInstance\<close>
  and no sequence of such calls sets \<open>was_destroyed_\<close>; in an execution the routine
  runs only when the runtime takes it out of the \<open>std::atexit\<close> registry.
\<close>

theorem DestroyInstance_steps:
  "(guard_free S w \<longrightarrow>
      (\<exists>w1 w2 w'. SyncGuard S t w = Some w1
         \<and> (S = MutexSynchronizationStrategy \<longrightarrow> mutex w1 = Some t \<and> mutex w2 = Some t)
         \<and> (S = AtomicSynchronizationStrategy \<longrightarrow> lock_flag w1 \<and> lock_flag w2)
         \<and> w2 = (Deallocate A (instance_ptr w) w1)\<lparr>instance_ptr := None, was_destroyed := True\<rparr>
         \<and> w' = SyncGuard_dtor S w2
         \<and> DestroyInstance A S t w = Some w'
         \<and> events w' = events w @ [GuardAcquire] @
             (case (if A = SmartPointerAllocationStrategy then ptr_instance w else instance_ptr w) of
                None \<Rightarrow> [] | Some a \<Rightarrow> [Destruct a, Free a]) @ [GuardRelease]
         \<and> objects w' = objects (Deallocate A (instance_ptr w) w)
         \<and> blocks w' = blocks (Deallocate A (instance_ptr w) w)
         \<and> instance_ptr w' = None \<and> was_destroyed w' \<and> guard_free S w'))
   \<and> (\<not> guard_free S w \<longrightarrow> DestroyInstance A S t w = None)
   \<and> (\<forall>n D t' v r v'. GetInstance n A D S t' v = Some (r, v') \<and> was_destroyed v'
          \<longrightarrow> was_destroyed v)
   \<and> (\<forall>n D acts v rs v'. run n A D S acts v = Some (rs, v') \<and> list_all is_Access acts
          \<and> was_destroyed v' \<longrightarrow> was_destroyed v)
   \<and> (\<forall>n D t' acts v. atexit v = []
          \<longrightarrow> run n A D S (AtExit t' # acts) v = run n A D S acts v)"
proof -
  have a: "\<exists>w1 w2 w'. SyncGuard S t w = Some w1
         \<and> (S = MutexSynchronizationStrategy \<longrightarrow> mutex w1 = Some t \<and> mutex w2 = Some t)
         \<and> (S = AtomicSynchronizationStrategy \<longrightarrow> lock_flag w1 \<and> lock_flag w2)
         \<and> w2 = (Deallocate A (instance_ptr w) w1)\<lparr>instance_ptr := None, was_destroyed := True\<rparr>
         \<and> w' = SyncGuard_dtor S w2
         \<and> DestroyInstance A S t w = Some w'
         \<and> events w' = events w @ [GuardAcquire] @
             (case (if A = SmartPointerAllocationStrategy then ptr_instance w else instance_ptr w) of
                None \<Rightarrow> [] | Some a \<Rightarrow> [Destruct a, Free a]) @ [GuardRelease]
         \<and> objects w' = objects (Deallocate A (instance_ptr w) w)
         \<and> blocks w' = blocks (Deallocate A (instance_ptr w) w)
         \<and> instance_ptr w' = None \<and> was_destroyed w' \<and> guard_free S w'"
    if free: "guard_free S w"
  proof -
    from acquire_free [OF free, of t] obtain w1 where
      g: "SyncGuard S t w = Some w1" and i: "instance_ptr w1 = instance_ptr w"
      by blast
    define w2 where
      "w2 = (Deallocate A (instance_ptr w) w1)\<lparr>instance_ptr := None, was_destroyed := True\<rparr>"
    have d: "DestroyInstance A S t w = Some (SyncGuard_dtor S w2)"
      using g i by (simp add: DestroyInstance_def w2_def)
    from DestroyInstance_effect [OF free, of A t] d
    have e: "instance_ptr (SyncGuard_dtor S w2) = None" "was_destroyed (SyncGuard_dtor S w2)"
      "guard_free S (SyncGuard_dtor S w2)"
      "events (SyncGuard_dtor S w2)
         = events (Deallocate A (instance_ptr w) (emit GuardAcquire w)) @ [GuardRelease]"
      "objects (SyncGuard_dtor S w2) = objects (Deallocate A (instance_ptr w) w)"
      "blocks (SyncGuard_dtor S w2) = blocks (Deallocate A (instance_ptr w) w)"
      by auto
    from e(4) have ev: "events (SyncGuard_dtor S w2) = events w @ [GuardAcquire] @
        (case (if A = SmartPointerAllocationStrategy then ptr_instance w else instance_ptr w) of
           None \<Rightarrow> [] | Some a \<Rightarrow> [Destruct a, Free a]) @ [GuardRelease]"
      by (simp add: Deallocate_events)
    note o = SyncGuard_owner [OF g]
    have held: "mutex w2 = mutex w1" "lock_flag w2 = lock_flag w1"
      by (simp_all add: w2_def Deallocate_guard)
    from g o held w2_def d e(1-3,5,6) ev show ?thesis by (intro exI [of _ w1] exI [of _ w2]
        exI [of _ "SyncGuard_dtor S w2"]) simp
  qed
  have b: "DestroyInstance A S t w = None" if "\<not> guard_free S w"
    using SyncGuard_held [OF that, of t] by (simp add: DestroyInstance_def)
  have c: "run n A D S (AtExit t' # acts) v = run n A D S acts v" if "atexit v = []"
    for n D t' acts v
    using that by simp
  show ?thesis
    apply (intro conjI impI allI)
    subgoal by (rule a)
    subgoal by (rule b)
    subgoal by (blast intro: GetInstance_keeps_alive)
    subgoal by (blast intro: run_callers_keep_alive)
    subgoal by (rule c)
    done
qed

theorem DestroyInstance_steps_witness:
  "guard_free MutexSynchronizationStrategy (holding 100 [])
   \<and> (\<exists>w1 w'. SyncGuard MutexSynchronizationStrategy 3 (holding 100 []) = Some w1
        \<and> mutex w1 = Some 3
        \<and> DestroyInstance RawMemoryAllocationStrategy MutexSynchronizationStrategy 3
              (holding 100 []) = Some w'
        \<and> events w' = [GuardAcquire, Destruct 100, Free 100, GuardRelease]
        \<and> objects w' = {} \<and> blocks w' = {}
        \<and> instance_ptr w' = None \<and> was_destroyed w'
        \<and> guard_free MutexSynchronizationStrategy w')
   \<and> \<not> guard_free MutexSynchronizationStrategy ((holding 100 [])\<lparr>mutex := Some 5\<rparr>)
   \<and> DestroyInstance RawMemoryAllocationStrategy MutexSynchronizationStrategy 3
        ((holding 100 [])\<lparr>mutex := Some 5\<rparr>) = None"
proof -
  let ?w = "holding 100 []"
  have free: "guard_free MutexSynchronizationStrategy ?w"
    by (simp add: holding_def initial_def)
  have held: "\<not> guard_free MutexSynchronizationStrategy (?w\<lparr>mutex := Some 5\<rparr>)"
    by simp
  have facts: "events ?w = []" "instance_ptr ?w = Some 100"
    "objects (Deallocate RawMemoryAllocationStrategy (Some 100) ?w) = {}"
    "blocks (Deallocate RawMemoryAllocationStrategy (Some 100) ?w) = {}"
    by (simp_all add: holding_def initial_def prim_defs)
  note free_case = DestroyInstance_steps [of MutexSynchronizationStrategy ?w 3
      RawMemoryAllocationStrategy, THEN conjunct1, THEN mp, OF free]
  note held_case = DestroyInstance_steps [of MutexSynchronizationStrategy
      "?w\<lparr>mutex := Some 5\<rparr>" 3 RawMemoryAllocationStrategy,
      THEN conjunct2, THEN conjunct1, THEN mp, OF held]
  from free_case have "\<exists>w1 w'. SyncGuard MutexSynchronizationStrategy 3 ?w = Some w1
        \<and> mutex w1 = Some 3
        \<and> DestroyInstance RawMemoryAllocationStrategy MutexSynchronizationStrategy 3 ?w = Some w'
        \<and> events w' = [GuardAcquire, Destruct 100, Free 100, GuardRelease]
        \<and> objects w' = {} \<and> blocks w' = {}
        \<and> instance_ptr w' = None \<and> was_destroyed w'
        \<and> guard_free MutexSynchronizationStrategy w'"
  proof (elim exE conjE)
    fix w1 w2 w'
    assume g: "SyncGuard MutexSynchronizationStrategy 3 ?w = Some w1"
      and m: "MutexSynchronizationStrategy = MutexSynchronizationStrategy
        \<longrightarrow> mutex w1 = Some 3 \<and> mutex w2 = Some 3"
      and d: "DestroyInstance RawMemoryAllocationStrategy MutexSynchronizationStrategy 3 ?w
        = Some w'"
      and ev: "events w' = events ?w @ [GuardAcquire] @
             (case (if RawMemoryAllocationStrategy = SmartPointerAllocationStrategy
                    then ptr_instance ?w else instance_ptr ?w) of
                None \<Rightarrow> [] | Some a \<Rightarrow> [Destruct a, Free a]) @ [GuardRelease]"
      and ob: "objects w' = objects (Deallocate RawMemoryAllocationStrategy (instance_ptr ?w) ?w)"
      and bl: "blocks w' = blocks (Deallocate RawMemoryAllocationStrategy (instance_ptr ?w) ?w)"
      and fin: "instance_ptr w' = None" "was_destroyed w'"
        "guard_free MutexSynchronizationStrategy w'"
    from m have m1: "mutex w1 = Some 3" by simp
    from ev have ev1: "events w' = [GuardAcquire, Destruct 100, Free 100, GuardRelease]"
      by (simp add: facts)
    from ob bl have e: "objects w' = {}" "blocks w' = {}"
      by (simp_all only: facts)
    from g m1 d ev1 e fin show ?thesis by blast
  qed
  with free held held_case show ?thesis by blast
qed

section \<open>Access after teardown\<close>

text \<open>
  Claim C3. Take a coordinator with the standard disposal policy whose guard is free,
  and let its destroy routine run. Then the next call of \<open>GetInstance\<close>, from any
  thread, throws the \<open>std::runtime_error\<close> of \<open>HandleDeadInstance\<close>: the error is the
  outcome of the call, the slot stays empty, no storage is requested and nothing is
  constructed.
\<close>

theorem Standard_rejects_dead_instance:
  assumes "guard_free S w"
  shows "\<exists>w1 w2. DestroyInstance A S t w = Some w1
    \<and> HandleDeadInstance StandardDisposalStrategy = Inl (runtime_error dead_message)
    \<and> GetInstance sizeof_T A StandardDisposalStrategy S t' w1
        = Some (Inl (runtime_error dead_message), w2)
    \<and> instance_ptr w2 = None \<and> was_destroyed w2
    \<and> requests w2 = requests w1 \<and> constructions w2 = constructions w1"
proof -
  from DestroyInstance_effect [OF assms, of A t] obtain w1 where
    d: "DestroyInstance A S t w = Some w1" and dead: "instance_ptr w1 = None" "was_destroyed w1"
    and free: "guard_free S w1"
    by blast
  let ?w2 = "w1\<lparr>events := events w1 @ [GuardAcquire, GuardRelease]\<rparr>"
  have "GetInstance sizeof_T A StandardDisposalStrategy S t' w1
      = Some (Inl (runtime_error dead_message), ?w2)"
    using free dead by (rule GetInstance_dead_Standard)
  moreover have "instance_ptr ?w2 = None" "was_destroyed ?w2"
    "requests ?w2 = requests w1" "constructions ?w2 = constructions w1"
    using dead by (simp_all add: count_defs)
  ultimately show ?thesis using d by auto
qed

theorem Standard_rejects_dead_instance_witness:
  "guard_free MutexSynchronizationStrategy (holding 100 [Some 200])
   \<and> (\<exists>w1 w2. DestroyInstance NewAllocationStrategy MutexSynchronizationStrategy 0
                  (holding 100 [Some 200]) = Some w1
       \<and> GetInstance 8 NewAllocationStrategy StandardDisposalStrategy
            MutexSynchronizationStrategy 1 w1
           = Some (Inl (runtime_error dead_message), w2)
       \<and> instance_ptr w2 = None \<and> constructions w2 = constructions w1)"
proof -
  have free: "guard_free MutexSynchronizationStrategy (holding 100 [Some 200])"
    by (simp add: holding_def initial_def)
  from Standard_rejects_dead_instance [OF free, of NewAllocationStrategy 0 8 1] free
  show ?thesis by blast
qed

text \<open>
  Claim C4. Take a coordinator with the resurrection policy whose guard is free, and
  let its destroy routine run. The next call of \<open>GetInstance\<close> returns, it never throws
  the dead-instance error (the handler is a no-op), and it leaves \<open>was_destroyed_\<close>
  cleared. The allocation then proceeds as on a first call: when the storage provider
  grants the block \<open>a\<close>, the call returns \<open>a\<close>, the slot holds \<open>a\<close>, a payload has been
  constructed there and is live, and \<open>DestroyInstance\<close> is registered again; when
  storage is exhausted, the call throws \<open>std::bad_alloc\<close>.
\<close>

theorem Resurrection_recreates:
  assumes "guard_free S w"
  shows "\<exists>w1 r w2. DestroyInstance A S t w = Some w1
    \<and> HandleDeadInstance ResurrectionStrategy = Inr ()
    \<and> GetInstance sizeof_T A ResurrectionStrategy S t' w1 = Some (r, w2)
    \<and> r \<noteq> Inl (runtime_error dead_message) \<and> \<not> was_destroyed w2
    \<and> (next_answer w = None \<longrightarrow> r = Inl bad_alloc)
    \<and> (\<forall>a. next_answer w = Some a \<longrightarrow>
          r = Inr a \<and> instance_ptr w2 = Some a \<and> a \<in> objects w2
          \<and> constructions w2 = constructions w1 + 1
          \<and> atexit w2 = DestroyInstance_ptr # atexit w1)"
proof -
  from DestroyInstance_effect [OF assms, of A t] obtain w1 where
    d: "DestroyInstance A S t w = Some w1" and dead: "instance_ptr w1 = None" "was_destroyed w1"
    and free: "guard_free S w1" and p: "provider w1 = provider w"
    and h: "A = SmartPointerAllocationStrategy \<longrightarrow> ptr_instance w1 = None"
    by blast
  have na: "next_answer w1 = next_answer w" by (simp add: next_answer_def p)
  have ok: "was_destroyed w1 \<longrightarrow> ResurrectionStrategy \<noteq> StandardDisposalStrategy" by simp
  show ?thesis
  proof (cases "next_answer w")
    case None
    with GetInstance_next(2) [OF free dead(1) ok, of sizeof_T A t'] na obtain w2 where
      g: "GetInstance sizeof_T A ResurrectionStrategy S t' w1 = Some (Inl bad_alloc, w2)"
      by auto
    from GetInstance_Inl [OF g] have "\<not> was_destroyed w2" by auto
    with d g None show ?thesis by auto
  next
    case (Some a)
    with GetInstance_next(1) [OF free dead(1) ok, of a sizeof_T A t'] na obtain w2 where
      g: "GetInstance sizeof_T A ResurrectionStrategy S t' w1 = Some (Inr a, w2)"
      by auto
    from GetInstance_created [OF dead(1) g] h
    have "instance_ptr w2 = Some a" "a \<in> objects w2" "\<not> was_destroyed w2"
      "constructions w2 = constructions w1 + 1" "atexit w2 = DestroyInstance_ptr # atexit w1"
      by auto
    with d g Some show ?thesis by auto
  qed
qed

theorem Resurrection_recreates_witness:
  "guard_free AtomicSynchronizationStrategy (holding 100 [Some 200])
   \<and> next_answer (holding 100 [Some 200]) = Some 200
   \<and> (\<exists>w1 w2. DestroyInstance RawMemoryAllocationStrategy AtomicSynchronizationStrategy 0
                  (holding 100 [Some 200]) = Some w1
       \<and> GetInstance 8 RawMemoryAllocationStrategy ResurrectionStrategy
            AtomicSynchronizationStrategy 1 w1 = Some (Inr 200, w2)
       \<and> instance_ptr w2 = Some 200 \<and> 200 \<in> objects w2 \<and> \<not> was_destroyed w2)"
proof -
  have free: "guard_free AtomicSynchronizationStrategy (holding 100 [Some 200])"
    by (simp add: holding_def initial_def)
  have na: "next_answer (holding 100 [Some 200]) = Some 200"
    by (simp add: holding_def initial_def next_answer_def)
  from Resurrection_recreates [OF free, of RawMemoryAllocationStrategy 0 8 1] free na
  show ?thesis by auto
qed

text \<open>
  Claim C10. Under the standard disposal policy, once the destroy routine has run,
  every later call of \<open>GetInstance\<close> throws the dead-instance error, whatever else
  happens (further calls from any thread, further functions run by \<open>std::atexit\<close>):
  \<open>was_destroyed_\<close> stays set, the slot stays empty, no storage is requested and no
  payload is constructed any more.
\<close>

theorem Standard_stays_dead:
  assumes "guard_free S w"
  shows "\<exists>w1 w2. DestroyInstance A S t w = Some w1
    \<and> run sizeof_T A StandardDisposalStrategy S acts w1
        = Some (replicate (length (filter is_Access acts)) (Inl (runtime_error dead_message)), w2)
    \<and> was_destroyed w2 \<and> instance_ptr w2 = None
    \<and> constructions w2 = constructions w1 \<and> requests w2 = requests w1
    \<and> provider w2 = provider w1"
proof -
  from DestroyInstance_effect [OF assms, of A t] obtain w1 where
    d: "DestroyInstance A S t w = Some w1" "instance_ptr w1 = None" "was_destroyed w1"
      "guard_free S w1"
    by blast
  from run_dead [OF d(4) d(2) d(3), of sizeof_T A acts] d(1) show ?thesis by blast
qed

theorem Standard_stays_dead_witness:
  "guard_free MutexSynchronizationStrategy (holding 100 [Some 200])
   \<and> (\<exists>w1 w2. DestroyInstance NewAllocationStrategy MutexSynchronizationStrategy 0
                  (holding 100 [Some 200]) = Some w1
       \<and> run 8 NewAllocationStrategy StandardDisposalStrategy MutexSynchronizationStrategy
            [Access 1, Access 2, AtExit 0, Access 1] w1
           = Some ([Inl (runtime_error dead_message), Inl (runtime_error dead_message),
                    Inl (runtime_error dead_message)], w2)
       \<and> was_destroyed w2 \<and> instance_ptr w2 = None
       \<and> constructions w2 = constructions w1 \<and> provider w2 = provider w1)"
proof -
  have free: "guard_free MutexSynchronizationStrategy (holding 100 [Some 200])"
    by (simp add: holding_def initial_def)
  from Standard_stays_dead [OF free, of NewAllocationStrategy 0 8
      "[Access 1, Access 2, AtExit 0, Access 1]"] free
  show ?thesis by (auto simp del: run.simps)
qed

section \<open>Errors leave the slot empty\<close>

text \<open>
  Claim C6, as the code has it. When \<open>GetInstance\<close> throws, the error is
  \<open>std::bad_alloc\<close> or the dead-instance error, the slot is empty, at most one storage
  request has been made (no retry), nothing has been constructed, the sets of blocks
  and objects, the shared handle and the \<open>std::atexit\<close> registry are as before, and
  the guard is free again. After \<open>std::bad_alloc\<close> the flag \<open>was_destroyed_\<close> is clear
  and a later call that is granted storage creates the instance. After the
  dead-instance error, which only the standard policy throws, \<open>was_destroyed_\<close> is
  still set and no storage was requested; every later call throws the same error
  again without requesting storage.
\<close>

theorem GetInstance_error_leaves_slot_empty:
  assumes "GetInstance sizeof_T A D S t w = Some (Inl e, w')"
  shows "instance_ptr w' = None
    \<and> (e = bad_alloc \<or> e = runtime_error dead_message)
    \<and> requests w' \<le> requests w + 1 \<and> constructions w' = constructions w
    \<and> objects w' = objects w \<and> blocks w' = blocks w
    \<and> ptr_instance w' = ptr_instance w \<and> atexit w' = atexit w
    \<and> guard_free S w'
    \<and> (e = bad_alloc \<longrightarrow>
         \<not> was_destroyed w'
         \<and> (\<forall>a t'. next_answer w' = Some a \<longrightarrow>
            (\<exists>w''. GetInstance sizeof_T A D S t' w' = Some (Inr a, w'')
               \<and> instance_ptr w'' = Some a \<and> constructions w'' = constructions w' + 1)))
    \<and> (e = runtime_error dead_message \<longrightarrow>
         D = StandardDisposalStrategy \<and> was_destroyed w' \<and> requests w' = requests w
         \<and> (\<forall>t'. \<exists>w''. GetInstance sizeof_T A D S t' w'
                = Some (Inl (runtime_error dead_message), w'')
              \<and> instance_ptr w'' = None \<and> was_destroyed w''
              \<and> requests w'' = requests w' \<and> constructions w'' = constructions w'))"
proof -
  note f = GetInstance_Inl [OF assms]
  have retry: "\<exists>w''. GetInstance sizeof_T A D S t' w' = Some (Inr a, w'')
      \<and> instance_ptr w'' = Some a \<and> constructions w'' = constructions w' + 1"
    if "e = bad_alloc" "next_answer w' = Some a" for a t'
  proof -
    from f that have "\<not> was_destroyed w'" by auto
    with GetInstance_next(1) [of S w' D a sizeof_T A t'] f that obtain w'' where
      g: "GetInstance sizeof_T A D S t' w' = Some (Inr a, w'')" by auto
    from f have "instance_ptr w' = None" by simp
    from GetInstance_created [OF this g] g show ?thesis by simp
  qed
  have again: "\<exists>w''. GetInstance sizeof_T A D S t' w'
                = Some (Inl (runtime_error dead_message), w'')
              \<and> instance_ptr w'' = None \<and> was_destroyed w''
              \<and> requests w'' = requests w' \<and> constructions w'' = constructions w'"
    if "e = runtime_error dead_message" for t'
  proof -
    from f that have d: "D = StandardDisposalStrategy" "was_destroyed w'"
      "guard_free S w'" "instance_ptr w' = None"
      by auto
    let ?w = "w'\<lparr>events := events w' @ [GuardAcquire, GuardRelease]\<rparr>"
    from GetInstance_dead_Standard [OF d(3) d(4) d(2), of sizeof_T A t'] d(1)
    have "GetInstance sizeof_T A D S t' w' = Some (Inl (runtime_error dead_message), ?w)"
      by simp
    moreover have "instance_ptr ?w = None" "was_destroyed ?w" "requests ?w = requests w'"
      "constructions ?w = constructions w'"
      using d by (simp_all add: count_defs)
    ultimately show ?thesis by blast
  qed
  from f have "requests w' \<le> requests w + 1" by auto
  moreover from f have "e = bad_alloc \<longrightarrow> \<not> was_destroyed w'" by auto
  moreover from f have "e = runtime_error dead_message \<longrightarrow>
      D = StandardDisposalStrategy \<and> was_destroyed w' \<and> requests w' = requests w"
    by auto
  ultimately show ?thesis using f retry again by blast
qed

theorem GetInstance_error_leaves_slot_empty_witness:
  "GetInstance 8 NewAllocationStrategy ResurrectionStrategy NoSynchronizationStrategy 0
      (initial [None, Some 100])
     = Some (Inl bad_alloc,
         (initial [Some 100])\<lparr>events := [GuardAcquire, Request 8 None, GuardRelease]\<rparr>)
   \<and> next_answer ((initial [Some 100])\<lparr>events := [GuardAcquire, Request 8 None, GuardRelease]\<rparr>)
       = Some 100
   \<and> (\<exists>w''. GetInstance 8 NewAllocationStrategy ResurrectionStrategy NoSynchronizationStrategy 1
          ((initial [Some 100])\<lparr>events := [GuardAcquire, Request 8 None, GuardRelease]\<rparr>)
        = Some (Inr 100, w'') \<and> instance_ptr w'' = Some 100)
   \<and> GetInstance 8 NewAllocationStrategy StandardDisposalStrategy NoSynchronizationStrategy 0
      ((initial [Some 100])\<lparr>was_destroyed := True\<rparr>)
     = Some (Inl (runtime_error dead_message),
         (initial [Some 100])\<lparr>was_destroyed := True, events := [GuardAcquire, GuardRelease]\<rparr>)
   \<and> (\<exists>w''. GetInstance 8 NewAllocationStrategy StandardDisposalStrategy
          NoSynchronizationStrategy 1
          ((initial [Some 100])\<lparr>was_destroyed := True, events := [GuardAcquire, GuardRelease]\<rparr>)
        = Some (Inl (runtime_error dead_message), w'') \<and> instance_ptr w'' = None)"
proof -
  have fails: "GetInstance 8 NewAllocationStrategy ResurrectionStrategy NoSynchronizationStrategy 0
      (initial [None, Some 100])
     = Some (Inl bad_alloc,
         (initial [Some 100])\<lparr>events := [GuardAcquire, Request 8 None, GuardRelease]\<rparr>)"
    by (simp add: GetInstance_def create_def prim_defs initial_def)
  have na: "next_answer ((initial [Some 100])\<lparr>events := [GuardAcquire, Request 8 None, GuardRelease]\<rparr>)
       = Some 100"
    by (simp add: next_answer_def initial_def)
  have dead: "GetInstance 8 NewAllocationStrategy StandardDisposalStrategy
      NoSynchronizationStrategy 0 ((initial [Some 100])\<lparr>was_destroyed := True\<rparr>)
     = Some (Inl (runtime_error dead_message),
         (initial [Some 100])\<lparr>was_destroyed := True, events := [GuardAcquire, GuardRelease]\<rparr>)"
    by (simp add: GetInstance_def create_def prim_defs initial_def)
  from GetInstance_error_leaves_slot_empty [OF fails] na
  have a: "\<exists>w''. GetInstance 8 NewAllocationStrategy ResurrectionStrategy
          NoSynchronizationStrategy 1
          ((initial [Some 100])\<lparr>events := [GuardAcquire, Request 8 None, GuardRelease]\<rparr>)
        = Some (Inr 100, w'') \<and> instance_ptr w'' = Some 100"
    by blast
  from GetInstance_error_leaves_slot_empty [OF dead]
  have b: "\<exists>w''. GetInstance 8 NewAllocationStrategy StandardDisposalStrategy
          NoSynchronizationStrategy 1
          ((initial [Some 100])\<lparr>was_destroyed := True, events := [GuardAcquire, GuardRelease]\<rparr>)
        = Some (Inl (runtime_error dead_message), w'') \<and> instance_ptr w'' = None"
    by blast
  from fails na dead a b show ?thesis by blast
qed

text \<open>
  The claim read for both errors fails after the dead-instance error: the coordinator
  with the standard policy is torn down while the provider still has the block 200 to
  grant; three later calls all throw, none requests storage, the slot stays empty.
\<close>

theorem dead_instance_retry_counterexample:
  "map_option fst
     (run 8 NewAllocationStrategy StandardDisposalStrategy NoSynchronizationStrategy
        [AtExit 0, Access 1, Access 2, Access 3] (holding 100 [Some 200]))
     = Some [Inl (runtime_error dead_message), Inl (runtime_error dead_message),
             Inl (runtime_error dead_message)]
   \<and> map_option (next_answer \<circ> snd)
     (run 8 NewAllocationStrategy StandardDisposalStrategy NoSynchronizationStrategy
        [AtExit 0, Access 1, Access 2, Access 3] (holding 100 [Some 200]))
     = Some (Some 200)
   \<and> map_option (requests \<circ> snd)
     (run 8 NewAllocationStrategy StandardDisposalStrategy NoSynchronizationStrategy
        [AtExit 0, Access 1, Access 2, Access 3] (holding 100 [Some 200]))
     = Some 0
   \<and> map_option (instance_ptr \<circ> snd)
     (run 8 NewAllocationStrategy StandardDisposalStrategy NoSynchronizationStrategy
        [AtExit 0, Access 1, Access 2, Access 3] (holding 100 [Some 200]))
     = Some None"
  by (simp add: GetInstance_def create_def DestroyInstance_def prim_defs holding_def initial_def
      next_answer_def requests_def)

section \<open>Concurrent first calls\<close>

lemma constructions_simps [simp]:
  "constructions (emit e w) = constructions w + (if is_Construct e then 1 else 0)"
  "constructions (SyncGuard_dtor S w) = constructions w"
  "constructions (RegisterForCleanup D f w) = constructions w"
  "constructions (w\<lparr>instance_ptr := i\<rparr>) = constructions w"
  "constructions (w\<lparr>was_destroyed := b\<rparr>) = constructions w"
  by (simp_all add: constructions_def)

lemma acquired_constructions:
  "SyncGuard S t w = Some w1 \<Longrightarrow> constructions w1 = constructions w"
  by (drule acquired) (simp add: constructions_def)

lemma acquired_locks:
  assumes "locking S" "SyncGuard S t w = Some w1"
  shows "guard_free S w \<and> \<not> guard_free S w1"
proof -
  from acquired [OF assms(2)] have free: "guard_free S w" by simp
  show ?thesis
  proof (cases S)
    case AtomicSynchronizationStrategy
    with free assms(2) show ?thesis by (auto simp: spin_free)
  qed (use assms free in \<open>auto simp: locking_def split: option.splits\<close>)
qed

lemma guard_free_frame:
  "mutex w' = mutex w \<Longrightarrow> lock_flag w' = lock_flag w \<Longrightarrow> guard_free S w' = guard_free S w"
  by (cases S) simp_all

lemma Allocate_guard:
  "Allocate A n w = (r, w') \<Longrightarrow> mutex w' = mutex w \<and> lock_flag w' = lock_flag w
     \<and> instance_ptr w' = instance_ptr w"
  by (cases r) (auto dest!: Allocate_Inl Allocate_Inr)

lemma Allocate_Inl_constructions:
  "Allocate A n w = (Inl e, w') \<Longrightarrow> constructions w' = constructions w"
  by (auto dest!: Allocate_Inl simp: constructions_def)

lemma exclusive_neutral:
  assumes "exclusive S (w, P)" "holds_guard p = holds_guard (P t)"
    "guard_free S w' = guard_free S w"
  shows "exclusive S (w', P(t := p))"
  using assms unfolding exclusive_def by (simp; metis)

lemma exclusive_acquire:
  assumes "exclusive S (w, P)" "guard_free S w" "\<not> guard_free S w'" "holds_guard p"
  shows "exclusive S (w', P(t := p))"
  using assms unfolding exclusive_def by (simp; metis)

lemma exclusive_release:
  assumes "exclusive S (w, P)" "holds_guard (P t)" "guard_free S w'" "\<not> holds_guard p"
  shows "exclusive S (w', P(t := p))"
  using assms unfolding exclusive_def by (simp; metis)

lemma exclusive_alone:
  assumes "exclusive S (w, P)" "holds_guard (P t) \<or> guard_free S w" "i \<noteq> t"
  shows "\<not> holds_guard (P i)"
  using assms unfolding exclusive_def by (simp; metis)


lemma place_ok_cong:
  assumes "instance_ptr w' = instance_ptr w" "constructions w' = constructions w"
  shows "place_ok q w' = place_ok q w"
proof (cases q)
  case (Returned r)
  with assms show ?thesis by (cases r) simp_all
qed (use assms in simp_all)

lemma place_ok_outside:
  assumes "\<not> holds_guard q" "place_ok q w" "instance_ptr w = None"
  shows "place_ok q w'"
proof (cases q)
  case (Returned r)
  with assms show ?thesis by (cases r) simp_all
qed (use assms in simp_all)

lemma consistent_same:
  assumes "consistent (w, P)"
    and "instance_ptr w' = instance_ptr w" "constructions w' = constructions w"
    and "\<not> is_Store (P t)" "\<not> is_Store p" "place_ok p w'"
  shows "consistent (w', P(t := p))"
proof -
  have "place_ok (if i = t then p else P i) w'" for i
    using assms place_ok_cong [OF assms(2,3), of "P i"] by (simp add: consistent_def)
  moreover have "\<forall>i. \<not> is_Store (P i)" if "\<forall>i. \<not> is_Store ((P(t := p)) i)"
  proof
    fix i show "\<not> is_Store (P i)"
      using that [rule_format, of i] assms(4) by (cases "i = t") simp_all
  qed
  ultimately show ?thesis using assms(1-3) by (simp add: consistent_def)
qed

lemma consistent_allocated:
  assumes "consistent (w, P)" "P t = Call_Allocate"
    and "\<And>i. i \<noteq> t \<Longrightarrow> \<not> holds_guard (P i)"
    and "instance_ptr w' = instance_ptr w" "constructions w' = constructions w + 1"
  shows "consistent (w', P(t := Store a))"
proof -
  from assms(1,2) have here: "instance_ptr w = None" "constructions w = 0"
    using place_ok.simps(4) [of w] by (auto simp: consistent_def dest: spec [of _ t])
  have "place_ok (if i = t then Store a else P i) w'" for i
  proof (cases "i = t")
    case True
    with here assms(4,5) show ?thesis by simp
  next
    case False
    from assms(1) have "place_ok (P i) w" by (simp add: consistent_def)
    with assms(3) [OF False] here(1) have "place_ok (P i) w'"
      by (blast intro: place_ok_outside)
    with False show ?thesis by simp
  qed
  moreover have "is_Store ((P(t := Store a)) t)" by simp
  ultimately show ?thesis using here assms(4,5) by (auto simp: consistent_def)
qed

lemma consistent_stored:
  assumes "consistent (w, P)" "P t = Store a"
    and "\<And>i. i \<noteq> t \<Longrightarrow> \<not> holds_guard (P i)"
    and "instance_ptr w' = Some a" "constructions w' = constructions w"
  shows "consistent (w', P(t := Register))"
proof -
  from assms(1,2) have here: "instance_ptr w = None" "constructions w = 1"
    using place_ok.simps(5) [of a w] by (auto simp: consistent_def dest: spec [of _ t])
  have "place_ok (if i = t then Register else P i) w'" for i
  proof (cases "i = t")
    case True
    with assms(4) show ?thesis by simp
  next
    case False
    from assms(1) have "place_ok (P i) w" by (simp add: consistent_def)
    with assms(3) [OF False] here(1) have "place_ok (P i) w'"
      by (blast intro: place_ok_outside)
    with False show ?thesis by simp
  qed
  then show ?thesis using here assms(4,5) by (simp add: consistent_def)
qed


lemma inv_start: "locking S \<Longrightarrow> inv S (start answers)"
  by (cases S)
    (simp_all add: inv_def exclusive_def consistent_def start_def initial_def
      constructions_def locking_def)

lemma is_Store_holds: "is_Store q \<Longrightarrow> holds_guard q"
  by (cases q) simp_all

lemma inv_step:
  assumes l: "locking S" and i: "inv S (w, P)"
    and s: "thread_step n A D S t (P t) w = Some (p, w')"
  shows "inv S (w', P(t := p))"
proof -
  from i have ex: "exclusive S (w, P)" and co: "consistent (w, P)"
    by (simp_all add: inv_def)
  from co have here: "place_ok (P t) w" by (simp add: consistent_def)
  have alone: "\<not> holds_guard (P i)" if "holds_guard (P t)" "i \<noteq> t" for i
    using exclusive_alone [OF ex _ that(2)] that(1) by blast
  show ?thesis
  proof (cases "P t")
    case First_check
    with s have [simp]: "w' = w" and p: "p = (if instance_ptr w = None then Acquire else Dereference)"
      by auto
    have "exclusive S (w', P(t := p))"
      using ex by (rule exclusive_neutral) (simp_all add: First_check p)
    moreover have "consistent (w', P(t := p))"
      using co by (rule consistent_same) (simp_all add: First_check p)
    ultimately show ?thesis by (simp add: inv_def)
  next
    case Acquire
    with s have g: "SyncGuard S t w = Some w'" and p: "p = Second_check"
      by (auto split: option.splits)
    note a = acquired [OF g] acquired_locks [OF l g] acquired_constructions [OF g]
    have "exclusive S (w', P(t := p))"
      using ex by (rule exclusive_acquire) (simp_all add: a p)
    moreover have "consistent (w', P(t := p))"
      using co by (rule consistent_same) (simp_all add: a p Acquire)
    ultimately show ?thesis by (simp add: inv_def)
  next
    case Second_check
    with s have [simp]: "w' = w"
      and p: "p = (if instance_ptr w = None then Test_destroyed else Release)"
      by auto
    have "\<not> is_Store (P i)" for i
      using alone [of i] Second_check is_Store_holds [of "P i"] by (cases "i = t") auto
    with co have zero: "instance_ptr w = None \<longrightarrow> constructions w = 0"
      by (simp add: consistent_def)
    have "exclusive S (w', P(t := p))"
      using ex by (rule exclusive_neutral) (simp_all add: Second_check p)
    moreover have "consistent (w', P(t := p))"
      using co by (rule consistent_same) (use zero in \<open>simp_all add: Second_check p\<close>)
    ultimately show ?thesis by (simp add: inv_def)
  next
    case Test_destroyed
    with s have [simp]: "w' = w"
      and p: "p = (if was_destroyed w then Handle_dead else Call_Allocate)"
      by auto
    have "exclusive S (w', P(t := p))"
      using ex by (rule exclusive_neutral) (simp_all add: Test_destroyed p)
    moreover have "consistent (w', P(t := p))"
      using co by (rule consistent_same) (use here in \<open>simp_all add: Test_destroyed p\<close>)
    ultimately show ?thesis by (simp add: inv_def)
  next
    case Handle_dead
    with s have [simp]: "w' = w" and p: "(\<exists>e. p = Unwind e) \<or> p = Clear_destroyed"
      by (auto split: sum.splits)
    have "exclusive S (w', P(t := p))"
      using ex by (rule exclusive_neutral) (use p in \<open>auto simp: Handle_dead\<close>)
    moreover have "consistent (w', P(t := p))"
      using co by (rule consistent_same) (use here p in \<open>auto simp: Handle_dead\<close>)
    ultimately show ?thesis by (simp add: inv_def)
  next
    case Clear_destroyed
    with s have w': "w' = w\<lparr>was_destroyed := False\<rparr>" and p: "p = Call_Allocate"
      by auto
    have gf: "guard_free S w' = guard_free S w" by (rule guard_free_frame) (simp_all add: w')
    have "exclusive S (w', P(t := p))"
      using ex by (rule exclusive_neutral) (simp_all add: Clear_destroyed p gf)
    moreover have "consistent (w', P(t := p))"
      using co by (rule consistent_same) (use here in \<open>simp_all add: Clear_destroyed p w'\<close>)
    ultimately show ?thesis by (simp add: inv_def)
  next
    case Call_Allocate
    obtain r w1 where al: "Allocate A n w = (r, w1)" by (cases "Allocate A n w")
    note f = Allocate_guard [OF al]
    from f have gf: "guard_free S w1 = guard_free S w" by (intro guard_free_frame) simp_all
    show ?thesis
    proof (cases r)
      case (Inl e)
      with s al Call_Allocate have [simp]: "w' = w1" and p: "p = Unwind e" by auto
      have "exclusive S (w', P(t := p))"
        using ex by (rule exclusive_neutral) (simp_all add: Call_Allocate p gf)
      moreover have "consistent (w', P(t := p))"
        using co by (rule consistent_same)
          (use f Allocate_Inl_constructions [OF al [unfolded Inl]] in \<open>simp_all add: Call_Allocate p\<close>)
      ultimately show ?thesis by (simp add: inv_def)
    next
      case (Inr a)
      with s al Call_Allocate have [simp]: "w' = w1" and p: "p = Store a" by auto
      from Allocate_Inr [OF al [unfolded Inr]] have c1: "constructions w1 = constructions w + 1"
        by simp
      have "exclusive S (w', P(t := p))"
        using ex by (rule exclusive_neutral) (simp_all add: Call_Allocate p gf)
      moreover have "consistent (w', P(t := Store a))"
        using co Call_Allocate
      proof (rule consistent_allocated)
        show "\<not> holds_guard (P i)" if "i \<noteq> t" for i
          using alone [OF _ that] Call_Allocate by simp
      qed (use f c1 in simp_all)
      ultimately show ?thesis by (simp add: inv_def p)
    qed
  next
    case (Store a)
    with s have w': "w' = w\<lparr>instance_ptr := Some a\<rparr>" and p: "p = Register"
      by auto
    have gf: "guard_free S w' = guard_free S w" by (rule guard_free_frame) (simp_all add: w')
    have "exclusive S (w', P(t := p))"
      using ex by (rule exclusive_neutral) (simp_all add: Store p gf)
    moreover have "consistent (w', P(t := Register))"
      using co Store
    proof (rule consistent_stored)
      show "\<not> holds_guard (P i)" if "i \<noteq> t" for i
        using alone [OF _ that] Store by simp
    qed (simp_all add: w')
    ultimately show ?thesis by (simp add: inv_def p)
  next
    case Register
    with s have w': "w' = RegisterForCleanup D DestroyInstance_ptr w" and p: "p = Release"
      by auto
    have gf: "guard_free S w' = guard_free S w" by (rule guard_free_frame) (simp_all add: w')
    have "exclusive S (w', P(t := p))"
      using ex by (rule exclusive_neutral) (simp_all add: Register p gf)
    moreover have "consistent (w', P(t := p))"
      using co by (rule consistent_same) (use here in \<open>simp_all add: Register p w'\<close>)
    ultimately show ?thesis by (simp add: inv_def)
  next
    case Release
    with s have w': "w' = SyncGuard_dtor S w" and p: "p = Dereference"
      by auto
    have "exclusive S (w', P(t := p))"
      using ex by (rule exclusive_release) (simp_all add: Release p w')
    moreover have "consistent (w', P(t := p))"
      using co by (rule consistent_same) (use here in \<open>simp_all add: Release p w'\<close>)
    ultimately show ?thesis by (simp add: inv_def)
  next
    case (Unwind e)
    with s have w': "w' = SyncGuard_dtor S w" and p: "p = Returned (Inl e)"
      by auto
    have "exclusive S (w', P(t := p))"
      using ex by (rule exclusive_release) (simp_all add: Unwind p w')
    moreover have "consistent (w', P(t := p))"
      using co by (rule consistent_same) (simp_all add: Unwind p w')
    ultimately show ?thesis by (simp add: inv_def)
  next
    case Dereference
    from here Dereference obtain a where a: "instance_ptr w = Some a" by auto
    with s Dereference have [simp]: "w' = w" and p: "p = Returned (Inr a)"
      by auto
    have "exclusive S (w', P(t := p))"
      using ex by (rule exclusive_neutral) (simp_all add: Dereference p)
    moreover have "consistent (w', P(t := p))"
      using co by (rule consistent_same) (simp_all add: Dereference p a)
    ultimately show ?thesis by (simp add: inv_def)
  next
    case (Returned r)
    with s show ?thesis by simp
  qed
qed

lemma inv_exec:
  assumes "locking S" "inv S c"
  shows "inv S (exec n A D S schedule c)"
  using assms(2)
proof (induction schedule arbitrary: c)
  case Nil
  then show ?case by (simp add: exec_def)
next
  case (Cons t ts)
  have "inv S (sched_step n A D S c t)"
  proof (cases "thread_step n A D S t (snd c t) (fst c)")
    case None
    with Cons.prems show ?thesis by (simp add: sched_step_def)
  next
    case (Some q)
    obtain p w' where q: "q = (p, w')" by (cases q)
    from Cons.prems have "inv S (fst c, snd c)" by simp
    from inv_step [OF assms(1) this Some [unfolded q]] Some q show ?thesis
      by (simp add: sched_step_def)
  qed
  from Cons.IH [OF this] show ?case by (simp add: exec_def)
qed


lemma granted_start: "granted a (start (Some a # rest))"
  by (simp add: granted_def start_def initial_def next_answer_def)

lemma granted_same:
  assumes "granted a (w, P)"
    and "was_destroyed w' = was_destroyed w" "provider w' = provider w"
    and "constructions w' = constructions w" "instance_ptr w' = instance_ptr w"
    and "calm a p"
  shows "granted a (w', P(t := p))"
  using assms by (simp add: granted_def next_answer_def)

lemma granted_step:
  assumes g: "granted a (w, P)" and co: "consistent (w, P)"
    and s: "thread_step n A D S t (P t) w = Some (p, w')"
  shows "granted a (w', P(t := p))"
proof -
  from g have nd: "\<not> was_destroyed w" and here: "calm a (P t)"
    by (simp_all add: granted_def)
  from co have ok: "place_ok (P t) w" by (simp add: consistent_def)
  show ?thesis
  proof (cases "P t")
    case First_check
    with s g show ?thesis by (auto intro!: granted_same)
  next
    case Acquire
    with s have a: "SyncGuard S t w = Some w'" and p: "p = Second_check"
      by (auto split: option.splits)
    from acquired [OF a] acquired_constructions [OF a] g show ?thesis
      by (auto intro!: granted_same simp: p)
  next
    case Second_check
    with s g show ?thesis by (auto intro!: granted_same)
  next
    case Test_destroyed
    with s g nd show ?thesis by (auto intro!: granted_same)
  next
    case Call_Allocate
    with ok have zero: "constructions w = 0" and none: "instance_ptr w = None" by simp_all
    with g have na: "next_answer w = Some a" by (simp add: granted_def)
    from Allocate_next(1) [OF na, of A n] obtain w1 where al: "Allocate A n w = (Inr a, w1)"
      by blast
    with s Call_Allocate have [simp]: "w' = w1" and p: "p = Store a" by auto
    from Allocate_Inr [OF al] g none show ?thesis
      by (simp add: granted_def p)
  next
    case (Store b)
    with s have w': "w' = w\<lparr>instance_ptr := Some b\<rparr>" and p: "p = Register" by auto
    from here Store have "b = a" by simp
    with g show ?thesis by (simp add: granted_def w' p next_answer_def)
  next
    case Register
    with s g show ?thesis by (auto intro!: granted_same)
  next
    case Release
    with s g show ?thesis by (auto intro!: granted_same)
  next
    case Dereference
    with ok obtain b where b: "instance_ptr w = Some b" by auto
    with g have "b = a" by (simp add: granted_def)
    with s Dereference b g show ?thesis by (auto intro!: granted_same)
  qed (use here s in simp_all)
qed

lemma calm_exec:
  assumes "locking S"
  shows "inv S (exec n A D S schedule (start (Some a # rest)))
    \<and> granted a (exec n A D S schedule (start (Some a # rest)))"
proof -
  have "inv S (exec n A D S schedule c) \<and> granted a (exec n A D S schedule c)"
    if "inv S c" "granted a c" for c
    using that
  proof (induction schedule arbitrary: c)
    case Nil
    then show ?case by (simp add: exec_def)
  next
    case (Cons t ts)
    have "inv S (sched_step n A D S c t) \<and> granted a (sched_step n A D S c t)"
    proof (cases "thread_step n A D S t (snd c t) (fst c)")
      case None
      with Cons.prems show ?thesis by (simp add: sched_step_def)
    next
      case (Some q)
      obtain p w' where q: "q = (p, w')" by (cases q)
      from Cons.prems have i: "inv S (fst c, snd c)" and g: "granted a (fst c, snd c)"
        by simp_all
      from i have co: "consistent (fst c, snd c)" by (simp add: inv_def)
      from inv_step [OF assms i Some [unfolded q]] granted_step [OF g co Some [unfolded q]]
        Some q
      show ?thesis by (simp add: sched_step_def)
    qed
    with Cons.IH [of "sched_step n A D S c t"] show ?case by (simp add: exec_def)
  qed
  from this [OF inv_start [OF assms] granted_start] show ?thesis .
qed

lemma exec_Nil [simp]: "exec n A D S [] c = c"
  by (simp add: exec_def)

lemma exec_Cons [simp]: "exec n A D S (t # ts) c = exec n A D S ts (sched_step n A D S c t)"
  by (simp add: exec_def)

lemma exec_append: "exec n A D S (xs @ ys) c = exec n A D S ys (exec n A D S xs c)"
  by (simp add: exec_def)

lemma eleven: "replicate 11 t = [t, t, t, t, t, t, t, t, t, t, t]"
  by (simp add: eval_nat_numeral)

text \<open>
  A thread that runs alone through the interleaved model does what the sequential
  \<open>GetInstance\<close> does: the same result and the same world.
\<close>

lemma solo_is_GetInstance:
  assumes "P t = First_check" "GetInstance n A D S t w = Some (r, w')"
  shows "exec n A D S (replicate 11 t) (w, P) = (w', P(t := Returned r))"
proof (cases "instance_ptr w")
  case (Some a)
  with assms show ?thesis
    by (simp add: GetInstance_hit eleven sched_step_def)
next
  case None
  from GetInstance_miss [OF None assms(2)] obtain w1 q w2 where
    g: "SyncGuard S t w = Some w1" and c: "create n A D w1 = (q, w2)"
    and w': "w' = SyncGuard_dtor S w2"
    and r: "r = (case q of Inl e \<Rightarrow> Inl e | Inr u \<Rightarrow>
             (case instance_ptr w2 of None \<Rightarrow> Inl null_dereference | Some a \<Rightarrow> Inr a))"
    by blast
  from acquired [OF g] None have n1: "instance_ptr w1 = None" by simp
  obtain x w3 where al: "Allocate A n (w1\<lparr>was_destroyed := False\<rparr>) = (x, w3)"
    by (cases "Allocate A n (w1\<lparr>was_destroyed := False\<rparr>)")
  obtain y w4 where al': "Allocate A n w1 = (y, w4)"
    by (cases "Allocate A n w1")
  from assms(1) None g c n1 al al' show ?thesis
    unfolding w' r eleven
    by (cases D; cases x; cases y; cases "was_destroyed w1")
      (auto simp: sched_step_def create_def)
qed

lemma solo_step:
  assumes "holds_guard q \<or> guard_free S w" "remaining q \<noteq> 0"
  shows "\<exists>p w'. thread_step n A D S t q w = Some (p, w') \<and> remaining p < remaining q
    \<and> (holds_guard p \<or> guard_free S w')"
proof (cases q)
  case Acquire
  with assms have "guard_free S w" by simp
  from acquire_free [OF this, of t] Acquire show ?thesis by auto
next
  case Handle_dead
  then show ?thesis by (cases D) simp_all
next
  case Call_Allocate
  obtain r w1 where "Allocate A n w = (r, w1)" by (cases "Allocate A n w")
  with Call_Allocate show ?thesis by (cases r) simp_all
qed (use assms in auto)

lemma solo_run:
  assumes "holds_guard (P t) \<or> guard_free S w" "remaining (P t) \<le> k"
  shows "\<exists>w' r. exec n A D S (replicate k t) (w, P) = (w', P(t := Returned r))
    \<and> guard_free S w'"
  using assms
proof (induction k arbitrary: w P)
  case 0
  then obtain r where r: "P t = Returned r" by (cases "P t") simp_all
  with 0 have "guard_free S w" by simp
  moreover from r have "exec n A D S (replicate 0 t) (w, P) = (w, P(t := Returned r))"
    by (simp add: fun_upd_idem)
  ultimately show ?case by blast
next
  case (Suc k)
  show ?case
  proof (cases "remaining (P t) = 0")
    case True
    then obtain r where r: "P t = Returned r" by (cases "P t") simp_all
    then have first: "sched_step n A D S (w, P) t = (w, P)" by (simp add: sched_step_def)
    from True have "remaining (P t) \<le> k" by simp
    with Suc.prems(1) obtain w' r where
      "exec n A D S (replicate k t) (w, P) = (w', P(t := Returned r))" and free: "guard_free S w'"
      using Suc.IH [of P w] by blast
    with first have "exec n A D S (replicate (Suc k) t) (w, P) = (w', P(t := Returned r))"
      by (simp only: replicate_Suc exec_Cons)
    with free show ?thesis by blast
  next
    case False
    from solo_step [OF Suc.prems(1) False, of n A D t] obtain p w1 where
      st: "thread_step n A D S t (P t) w = Some (p, w1)" and less: "remaining p < remaining (P t)"
      and pre: "holds_guard p \<or> guard_free S w1"
      by blast
    from st have first: "sched_step n A D S (w, P) t = (w1, P(t := p))"
      by (simp add: sched_step_def)
    from less Suc.prems(2) have "remaining ((P(t := p)) t) \<le> k" by simp
    moreover from pre have "holds_guard ((P(t := p)) t) \<or> guard_free S w1" by simp
    ultimately obtain w' r where
      "exec n A D S (replicate k t) (w1, P(t := p)) = (w', (P(t := p))(t := Returned r))"
      and free: "guard_free S w'"
      using Suc.IH [of "P(t := p)" w1] by blast
    with first have "exec n A D S (replicate (Suc k) t) (w, P) = (w', P(t := Returned r))"
      by (simp only: replicate_Suc exec_Cons fun_upd_upd)
    with free show ?thesis by blast
  qed
qed

lemma finish_all:
  assumes "guard_free S w"
  shows "\<exists>w' P'. exec n A D S (concat (map (replicate 11) ts)) (w, P) = (w', P')
    \<and> guard_free S w' \<and> (\<forall>i. i \<in> set ts \<or> remaining (P i) = 0 \<longrightarrow> remaining (P' i) = 0)"
  using assms
proof (induction ts arbitrary: w P)
  case Nil
  then show ?case by simp
next
  case (Cons t ts)
  have "remaining (P t) \<le> 11" by (cases "P t") simp_all
  with solo_run [of P t S w 11 n A D] Cons.prems obtain w1 r where
    one: "exec n A D S (replicate 11 t) (w, P) = (w1, P(t := Returned r))"
    and free: "guard_free S w1"
    by blast
  from Cons.IH [OF free, of "P(t := Returned r)"] obtain w' P' where
    rest: "exec n A D S (concat (map (replicate 11) ts)) (w1, P(t := Returned r)) = (w', P')"
    and free': "guard_free S w'"
    and fin: "\<forall>i. i \<in> set ts \<or> remaining ((P(t := Returned r)) i) = 0 \<longrightarrow> remaining (P' i) = 0"
    by blast
  have "exec n A D S (concat (map (replicate 11) (t # ts))) (w, P) = (w', P')"
    using one rest by (simp add: exec_append)
  moreover have "\<forall>i. i \<in> set (t # ts) \<or> remaining (P i) = 0 \<longrightarrow> remaining (P' i) = 0"
  proof (intro allI impI)
    fix i assume "i \<in> set (t # ts) \<or> remaining (P i) = 0"
    then have "i \<in> set ts \<or> remaining ((P(t := Returned r)) i) = 0" by auto
    with fin show "remaining (P' i) = 0" by blast
  qed
  ultimately show ?case using free' by blast
qed

lemma can_complete:
  assumes "locking S" "inv S (w, P)"
  shows "\<exists>more. \<forall>i<N. remaining (snd (exec n A D S more (w, P)) i) = 0"
proof -
  have "\<exists>h w1 P1. exec n A D S h (w, P) = (w1, P1) \<and> guard_free S w1"
  proof (cases "guard_free S w")
    case True
    then have "exec n A D S [] (w, P) = (w, P) \<and> guard_free S w" by simp
    then show ?thesis by blast
  next
    case False
    with assms(2) obtain t where "holds_guard (P t)"
      by (auto simp: inv_def exclusive_def)
    moreover have "remaining (P t) \<le> 11" by (cases "P t") simp_all
    ultimately show ?thesis using solo_run [of P t S w 11 n A D] by blast
  qed
  then obtain h w1 P1 where h: "exec n A D S h (w, P) = (w1, P1)" and free: "guard_free S w1"
    by blast
  from finish_all [OF free, of n A D "[0..<N]" P1] obtain w' P' where
    f: "exec n A D S (concat (map (replicate 11) [0..<N])) (w1, P1) = (w', P')"
    and d: "\<forall>i. i \<in> set [0..<N] \<or> remaining (P1 i) = 0 \<longrightarrow> remaining (P' i) = 0"
    by blast
  have "exec n A D S (h @ concat (map (replicate 11) [0..<N])) (w, P) = (w', P')"
    using h f by (simp add: exec_append)
  moreover from d have "\<forall>i<N. remaining (P' i) = 0" by simp
  ultimately show ?thesis by (intro exI [of _ "h @ concat (map (replicate 11) [0..<N])"]) simp
qed

lemma contended_run:
  "map (snd (exec 8 NewAllocationStrategy StandardDisposalStrategy MutexSynchronizationStrategy
       contended (start [Some 100, Some 200]))) [0, 1, 2, 3, 4, 5, 6, 7]
     = [Returned (Inr 100), Returned (Inr 100), Returned (Inr 100), Returned (Inr 100),
        Returned (Inr 100), Returned (Inr 100), Returned (Inr 100), Returned (Inr 100)]"
  by (simp add: contended_def exec_def sched_step_def start_def initial_def prim_defs)

lemma unsynchronized_race:
  "map (snd (exec 8 NewAllocationStrategy StandardDisposalStrategy NoSynchronizationStrategy
       racing (start [Some 100, Some 200]))) [0, 1]
     = [Returned (Inr 100), Returned (Inr 200)]
   \<and> constructions (fst (exec 8 NewAllocationStrategy StandardDisposalStrategy
        NoSynchronizationStrategy racing (start [Some 100, Some 200]))) = 2"
  by (simp add: racing_def exec_def sched_step_def start_def initial_def prim_defs
      constructions_def del: exec_Cons exec_Nil)

text \<open>
  Claim C9. Take the mutex or the atomic-spin strategy, any allocation and disposal
  strategy, a fresh process, and threads that each call \<open>GetInstance\<close> once, their
  steps interleaved in any way. In every configuration that can be reached, all
  calls that have returned a reference returned the same address, at most one
  payload has been constructed, and exactly one if some call has returned a
  reference. When the storage provider grants its first request, no call throws:
  every finished call returned the granted address. No interleaving gets stuck:
  from every reachable configuration the eight threads 0 to 7 can all be brought to
  the end of their calls. (Without a locking guard two threads can construct two
  payloads and get different addresses, see \<open>unsynchronized_race\<close>.)
\<close>

theorem concurrent_calls_one_instance:
  assumes "S = MutexSynchronizationStrategy \<or> S = AtomicSynchronizationStrategy"
    and "exec sizeof_T A D S schedule (start answers) = (w, P)"
  shows "(\<forall>i j a b. P i = Returned (Inr a) \<and> P j = Returned (Inr b) \<longrightarrow> a = b)
    \<and> constructions w \<le> 1
    \<and> ((\<exists>i a. P i = Returned (Inr a)) \<longrightarrow> constructions w = 1)
    \<and> (\<forall>a rest. answers = Some a # rest \<longrightarrow> (\<forall>i r. P i = Returned r \<longrightarrow> r = Inr a))
    \<and> (\<exists>more. \<forall>i<8. \<exists>r. snd (exec sizeof_T A D S more (w, P)) i = Returned r)"
proof -
  note c = assms(2)
  from assms(1) have l: "locking S" by (simp add: locking_def)
  from inv_exec [OF l inv_start [OF l], of sizeof_T A D schedule answers] c
  have i: "inv S (w, P)" by simp
  then have co: "consistent (w, P)" by (simp add: inv_def)
  have ret: "instance_ptr w = Some a" if "P i = Returned (Inr a)" for i a
    using co that place_ok.simps(9) [of a w] by (auto simp: consistent_def dest: spec [of _ i])
  have le: "constructions w \<le> 1"
  proof (cases "instance_ptr w = None \<and> (\<forall>i. \<not> is_Store (P i))")
    case True
    with co show ?thesis by (simp add: consistent_def)
  next
    case False
    then consider "instance_ptr w \<noteq> None" | k where "is_Store (P k)" by auto
    then show ?thesis
    proof cases
      case 1
      with co show ?thesis by (simp add: consistent_def)
    next
      case 2
      then obtain a where "P k = Store a" by (cases "P k") simp_all
      with co place_ok.simps(5) [of a w] show ?thesis
        by (auto simp: consistent_def dest: spec [of _ k])
    qed
  qed
  have one: "constructions w = 1" if "P i = Returned (Inr a)" for i a
    using ret [OF that] co by (simp add: consistent_def)
  have same: "a = b" if "P i = Returned (Inr a)" "P j = Returned (Inr b)" for i j a b
    using ret [OF that(1)] ret [OF that(2)] by simp
  have no_throw: "r = Inr a" if "answers = Some a # rest" "P i = Returned r" for a rest i r
  proof -
    from calm_exec [OF l, of sizeof_T A D schedule a rest] c that(1)
    have "granted a (w, P)" by simp
    then have "calm a (P i)" by (simp add: granted_def)
    with that(2) show ?thesis by (cases r) simp_all
  qed
  from can_complete [OF l i, of 8 sizeof_T A D] obtain more where
    m: "\<forall>i<8. remaining (snd (exec sizeof_T A D S more (w, P)) i) = 0"
    by blast
  have fin: "\<exists>more. \<forall>i<8. \<exists>r. snd (exec sizeof_T A D S more (w, P)) i = Returned r"
  proof (intro exI [of _ more] allI impI)
    fix i :: nat assume "i < 8"
    with m have "remaining (snd (exec sizeof_T A D S more (w, P)) i) = 0" by blast
    then show "\<exists>r. snd (exec sizeof_T A D S more (w, P)) i = Returned r"
      by (cases "snd (exec sizeof_T A D S more (w, P)) i") simp_all
  qed
  from same le one no_throw fin show ?thesis by blast
qed

theorem concurrent_calls_one_instance_witness:
  "(MutexSynchronizationStrategy = MutexSynchronizationStrategy
      \<or> MutexSynchronizationStrategy = AtomicSynchronizationStrategy)
   \<and> map (snd (exec 8 NewAllocationStrategy StandardDisposalStrategy
        MutexSynchronizationStrategy contended (start [Some 100, Some 200])))
        [0, 1, 2, 3, 4, 5, 6, 7]
     = [Returned (Inr 100), Returned (Inr 100), Returned (Inr 100), Returned (Inr 100),
        Returned (Inr 100), Returned (Inr 100), Returned (Inr 100), Returned (Inr 100)]
   \<and> constructions (fst (exec 8 NewAllocationStrategy StandardDisposalStrategy
        MutexSynchronizationStrategy contended (start [Some 100, Some 200]))) = 1"
proof -
  let ?c = "exec 8 NewAllocationStrategy StandardDisposalStrategy
        MutexSynchronizationStrategy contended (start [Some 100, Some 200])"
  have locks: "MutexSynchronizationStrategy = MutexSynchronizationStrategy
      \<or> MutexSynchronizationStrategy = AtomicSynchronizationStrategy"
    by simp
  have c: "?c = (fst ?c, snd ?c)" by simp
  from contended_run have "snd ?c 0 = Returned (Inr 100)" by simp
  with concurrent_calls_one_instance [OF locks c] have "constructions (fst ?c) = 1"
    by blast
  with contended_run locks show ?thesis by blast
qed

end
